theory Spec2Isabelle
  imports Main
begin

section \<open>Values of the host language\<close>

text \<open>
  The hook of \<^verbatim>\<open>src/index.js\<close> is dynamically typed: a field value, a constraint's
  parameters and a message are arbitrary JavaScript values. The model fixes a universe
  of values and gives each primitive operation the source uses its JavaScript meaning
  on that universe.

  \<^item> A string is a \<open>string\<close>; a \<open>char\<close> stands for one UTF-16 code unit below 256.
  \<^item> A number is an integer (lengths, sizes, thresholds).
  \<^item> An object is the list of its own enumerable properties in creation order; keys
    are distinct. A plain object also inherits the properties of \<^verbatim>\<open>Object.prototype\<close>:
    such a name reads as a truthy value with no enumerable property of its own.
  \<^item> A function is a reference \<open>Fn n\<close> into an environment of caller-supplied
    functions; such a function returns a value or throws.
  \<^item> A regular expression object has a pattern, the flags \<^verbatim>\<open>g\<close> and \<^verbatim>\<open>y\<close> and its
    \<^verbatim>\<open>lastIndex\<close>, the one piece of state that \<^verbatim>\<open>test\<close> writes. Objects of a schema are
    not shared between two of its places.
  \<^item> A value in a report that is an object of the schema stands for that object as the
    call found it.

  A \<^verbatim>\<open>TypeError\<close> of the engine and a value thrown by a caller-supplied function are
  results of their own. Where the JavaScript meaning of an operation on some operands
  is not covered (conversion of an object to a primitive, identity of two structurally
  equal objects, own properties of a function, the value of an inherited property),
  the model answers \<open>Unmodelled\<close> rather than a guess.
\<close>

subsection \<open>Regular expressions\<close>

datatype rx =
    Empty
  | Eps
  | Lit char
  | AnyChar
  | OneOf "char list"
  | NoneOf "char list"
  | Cat rx rx
  | Alt rx rx
  | Rep rx
  | Rep1 rx
  | Maybe rx

text \<open>A literal \<^verbatim>\<open>/^body$/\<close>: is it anchored at the start, the body, is it anchored at the end.\<close>

datatype regexp = RegExpLit bool rx bool

definition line_terminators :: "char list" where
  "line_terminators = [CHR 0x0A, CHR 0x0D]"

definition white_space :: "char list" where
  "white_space = [CHR 0x09, CHR 0x0A, CHR 0x0B, CHR 0x0C, CHR 0x0D, CHR 0x20, CHR 0xA0]"

fun nullable :: "rx \<Rightarrow> bool" where
  "nullable Empty = False"
| "nullable Eps = True"
| "nullable (Lit c) = False"
| "nullable AnyChar = False"
| "nullable (OneOf cs) = False"
| "nullable (NoneOf cs) = False"
| "nullable (Cat r s) = (nullable r \<and> nullable s)"
| "nullable (Alt r s) = (nullable r \<or> nullable s)"
| "nullable (Rep r) = True"
| "nullable (Rep1 r) = nullable r"
| "nullable (Maybe r) = True"

fun deriv :: "char \<Rightarrow> rx \<Rightarrow> rx" where
  "deriv c Empty = Empty"
| "deriv c Eps = Empty"
| "deriv c (Lit d) = (if c = d then Eps else Empty)"
| "deriv c AnyChar = (if c \<in> set line_terminators then Empty else Eps)"
| "deriv c (OneOf cs) = (if c \<in> set cs then Eps else Empty)"
| "deriv c (NoneOf cs) = (if c \<in> set cs then Empty else Eps)"
| "deriv c (Cat r s) =
     (if nullable r then Alt (Cat (deriv c r) s) (deriv c s) else Cat (deriv c r) s)"
| "deriv c (Alt r s) = Alt (deriv c r) (deriv c s)"
| "deriv c (Rep r) = Cat (deriv c r) (Rep r)"
| "deriv c (Rep1 r) = Cat (deriv c r) (Rep r)"
| "deriv c (Maybe r) = deriv c r"

text \<open>The whole of \<open>s\<close> matches \<open>r\<close>.\<close>

fun matches :: "rx \<Rightarrow> string \<Rightarrow> bool" where
  "matches r [] = nullable r"
| "matches r (c # cs) = matches (deriv c r) cs"

text \<open>Some prefix of \<open>s\<close> matches \<open>r\<close>.\<close>

fun matches_prefix :: "rx \<Rightarrow> string \<Rightarrow> bool" where
  "matches_prefix r [] = nullable r"
| "matches_prefix r (c # cs) = (nullable r \<or> matches_prefix (deriv c r) cs)"

fun tails :: "'a list \<Rightarrow> 'a list list" where
  "tails [] = [[]]"
| "tails (x # xs) = (x # xs) # tails xs"

text \<open>\<^verbatim>\<open>RegExp.prototype.test\<close> on a string: is there a match starting anywhere (at the
  start only under \<^verbatim>\<open>^\<close>) and ending anywhere (at the end only under \<^verbatim>\<open>$\<close>).\<close>

fun test :: "regexp \<Rightarrow> string \<Rightarrow> bool" where
  "test (RegExpLit bol r eol) s =
     list_ex (\<lambda>t. if eol then matches r t else matches_prefix r t)
       (if bol then [s] else tails s)"

text \<open>The lengths of the prefixes of \<open>s\<close> that match \<open>r\<close>, in ascending order.\<close>

fun match_ends :: "rx \<Rightarrow> string \<Rightarrow> nat list" where
  "match_ends r [] = (if nullable r then [0] else [])"
| "match_ends r (c # cs) =
     (if nullable r then [0] else []) @ map Suc (match_ends (deriv c r) cs)"

text \<open>The lengths of the matches of a literal that start at index \<open>i\<close> of \<open>s\<close>: \<^verbatim>\<open>^\<close> holds
  at index 0 only, \<^verbatim>\<open>$\<close> at the end of \<open>s\<close> only.\<close>

fun ends_at :: "regexp \<Rightarrow> string \<Rightarrow> nat \<Rightarrow> nat list" where
  "ends_at (RegExpLit bol r eol) s i =
     (if bol \<and> i \<noteq> 0 then []
      else filter (\<lambda>e. if eol then i + e = length s else True) (match_ends r (drop i s)))"

text \<open>The first of the start indices \<open>js\<close> at which the literal matches, with the lengths
  of its matches there.\<close>

fun first_match :: "regexp \<Rightarrow> string \<Rightarrow> nat list \<Rightarrow> (nat \<times> nat list) option" where
  "first_match r s [] = None"
| "first_match r s (j # js) =
     (case ends_at r s j of [] \<Rightarrow> first_match r s js | e # es \<Rightarrow> Some (j, e # es))"

text \<open>A regular expression object: the pattern and the properties \<^verbatim>\<open>global\<close>, \<^verbatim>\<open>sticky\<close>
  and \<^verbatim>\<open>lastIndex\<close>.\<close>

record regexp_object =
  source :: regexp
  global :: bool
  sticky :: bool
  lastIndex :: nat

text \<open>The object a literal without flags evaluates to.\<close>

definition literal :: "regexp \<Rightarrow> regexp_object" where
  "literal r = \<lparr>source = r, global = False, sticky = False, lastIndex = 0\<rparr>"

text \<open>\<^verbatim>\<open>test\<close> on an object with the \<^verbatim>\<open>g\<close> or \<^verbatim>\<open>y\<close> flag: the search starts at \<^verbatim>\<open>lastIndex\<close>
  (under \<^verbatim>\<open>y\<close> it also ends there). The result comes with the \<^verbatim>\<open>lastIndex\<close> the call
  leaves: the end of the match found, 0 after a failure. Where the pattern has matches
  of several lengths at the start found, which one the engine takes is not modelled and
  the new \<^verbatim>\<open>lastIndex\<close> is \<open>None\<close>.\<close>

definition test_flagged :: "regexp \<Rightarrow> bool \<Rightarrow> nat \<Rightarrow> string \<Rightarrow> bool \<times> nat option" where
  "test_flagged r y li s =
     (if length s < li then (False, Some 0)
      else case first_match r s (if y then [li] else [li ..< Suc (length s)]) of
             None \<Rightarrow> (False, Some 0)
           | Some (j, es) \<Rightarrow> (True, case es of [e] \<Rightarrow> Some (j + e) | _ \<Rightarrow> None))"

text \<open>The strings a body denotes, to state what the matcher decides.\<close>

definition cat_lang :: "string set \<Rightarrow> string set \<Rightarrow> string set" where
  "cat_lang A B = {u @ v | u v. u \<in> A \<and> v \<in> B}"

inductive_set star_lang :: "string set \<Rightarrow> string set" for A :: "string set" where
  star_empty: "[] \<in> star_lang A"
| star_step: "u \<in> A \<Longrightarrow> v \<in> star_lang A \<Longrightarrow> u @ v \<in> star_lang A"

fun lang :: "rx \<Rightarrow> string set" where
  "lang Empty = {}"
| "lang Eps = {[]}"
| "lang (Lit c) = {[c]}"
| "lang AnyChar = {[c] | c. c \<notin> set line_terminators}"
| "lang (OneOf cs) = {[c] | c. c \<in> set cs}"
| "lang (NoneOf cs) = {[c] | c. c \<notin> set cs}"
| "lang (Cat r s) = cat_lang (lang r) (lang s)"
| "lang (Alt r s) = lang r \<union> lang s"
| "lang (Rep r) = star_lang (lang r)"
| "lang (Rep1 r) = cat_lang (lang r) (star_lang (lang r))"
| "lang (Maybe r) = insert [] (lang r)"

subsection \<open>Values, errors\<close>

datatype jsval =
    Undefined
  | Null
  | Bool bool
  | Num int
  | Str string
  | Arr "jsval list"
  | Obj "(string \<times> jsval) list"
  | RegExp regexp_object
  | Fn nat
  | ErrorObj

datatype error = TypeError | Thrown jsval | Unmodelled

type_synonym object = "(string \<times> jsval) list"

type_synonym funs = "nat \<Rightarrow> jsval list \<Rightarrow> error + jsval"

definition bnd :: "error + 'a \<Rightarrow> ('a \<Rightarrow> error + 'b) \<Rightarrow> error + 'b" where
  "bnd m f = (case m of Inl e \<Rightarrow> Inl e | Inr x \<Rightarrow> f x)"

text \<open>\<^verbatim>\<open>!!v\<close>\<close>

fun truthy :: "jsval \<Rightarrow> bool" where
  "truthy Undefined = False"
| "truthy Null = False"
| "truthy (Bool b) = b"
| "truthy (Num n) = (n \<noteq> 0)"
| "truthy (Str s) = (s \<noteq> [])"
| "truthy (Arr xs) = True"
| "truthy (Obj kvs) = True"
| "truthy (RegExp r) = True"
| "truthy (Fn n) = True"
| "truthy ErrorObj = True"

text \<open>Values compared by identity, whose structure does not decide \<^verbatim>\<open>===\<close>.\<close>

fun is_ref :: "jsval \<Rightarrow> bool" where
  "is_ref (Arr xs) = True"
| "is_ref (Obj kvs) = True"
| "is_ref (RegExp r) = True"
| "is_ref ErrorObj = True"
| "is_ref v = False"

text \<open>\<^verbatim>\<open>a === b\<close>: two values of different structure are different; two primitives, or
  two function references, of the same structure are the same.\<close>

definition strict_eq :: "jsval \<Rightarrow> jsval \<Rightarrow> error + bool" where
  "strict_eq a b = (if is_ref a \<and> a = b then Inl Unmodelled else Inr (a = b))"

text \<open>The names every plain object inherits from \<^verbatim>\<open>Object.prototype\<close>.\<close>

definition Object_prototype_keys :: "string list" where
  "Object_prototype_keys =
     [''constructor'', ''__defineGetter__'', ''__defineSetter__'', ''hasOwnProperty'',
      ''__lookupGetter__'', ''__lookupSetter__'', ''isPrototypeOf'',
      ''propertyIsEnumerable'', ''toString'', ''valueOf'', ''__proto__'',
      ''toLocaleString'']"

text \<open>\<^verbatim>\<open>o[k]\<close> on a plain object: an own property, else an inherited one, else
  \<^verbatim>\<open>undefined\<close>.\<close>

definition obj_get :: "object \<Rightarrow> string \<Rightarrow> error + jsval" where
  "obj_get kvs k =
     (case map_of kvs k of
        Some v \<Rightarrow> Inr v
      | None \<Rightarrow> if k \<in> set Object_prototype_keys then Inl Unmodelled else Inr Undefined)"

subsection \<open>Primitive operations\<close>

definition boolean :: "error + bool \<Rightarrow> error + jsval" where
  "boolean m = bnd m (\<lambda>b. Inr (Bool b))"

definition negated :: "error + bool \<Rightarrow> error + bool" where
  "negated m = bnd m (\<lambda>b. Inr (\<not> b))"

text \<open>A binary operation on two operands evaluated left to right.\<close>

definition on2 ::
  "(jsval \<Rightarrow> jsval \<Rightarrow> error + 'a) \<Rightarrow> error + jsval \<Rightarrow> error + jsval \<Rightarrow> error + 'a" where
  "on2 f ma mb = bnd ma (\<lambda>a. bnd mb (\<lambda>b. f a b))"

text \<open>\<^verbatim>\<open>v.name\<close>, \<^verbatim>\<open>v.size\<close>, \<^verbatim>\<open>v.type\<close>, \<^verbatim>\<open>v.length\<close>: the four properties the source
  reads by name.\<close>

definition read_names :: "string list" where
  "read_names = [''name'', ''size'', ''type'', ''length'']"

fun get_prop :: "jsval \<Rightarrow> string \<Rightarrow> error + jsval" where
  "get_prop Undefined k = Inl TypeError"
| "get_prop Null k = Inl TypeError"
| "get_prop (Obj kvs) k = obj_get kvs k"
| "get_prop (Str s) k =
     (if k = ''length'' then Inr (Num (int (length s)))
      else if k \<in> set read_names then Inr Undefined else Inl Unmodelled)"
| "get_prop (Arr xs) k =
     (if k = ''length'' then Inr (Num (int (length xs)))
      else if k \<in> set read_names then Inr Undefined else Inl Unmodelled)"
| "get_prop ErrorObj k =
     (if k = ''name'' then Inr (Str ''Error'')
      else if k \<in> set read_names then Inr Undefined else Inl Unmodelled)"
| "get_prop (Fn n) k = Inl Unmodelled"
| "get_prop v k = (if k \<in> set read_names then Inr Undefined else Inl Unmodelled)"

text \<open>\<^verbatim>\<open>v[i]\<close> for an index \<open>i\<close> written in the source (\<^verbatim>\<open>0\<close> or \<^verbatim>\<open>1\<close>).\<close>

fun get_index :: "jsval \<Rightarrow> nat \<Rightarrow> error + jsval" where
  "get_index Undefined i = Inl TypeError"
| "get_index Null i = Inl TypeError"
| "get_index (Arr xs) i = Inr (if i < length xs then xs ! i else Undefined)"
| "get_index (Str s) i = Inr (if i < length s then Str [s ! i] else Undefined)"
| "get_index (Obj kvs) i =
     (if i < 10 then obj_get kvs [''0123456789'' ! i] else Inl Unmodelled)"
| "get_index (Fn n) i = Inl Unmodelled"
| "get_index v i = Inr Undefined"

text \<open>\<^verbatim>\<open>xs[xs.length - 1]\<close> on an array; index \<^verbatim>\<open>-1\<close> of the empty array is
  \<^verbatim>\<open>undefined\<close>.\<close>

definition last_elem :: "jsval list \<Rightarrow> jsval" where
  "last_elem xs = (if xs = [] then Undefined else last xs)"

text \<open>Conversion of a primitive to a string, as a property key or an argument.\<close>

fun to_string :: "jsval \<Rightarrow> error + string" where
  "to_string (Str s) = Inr s"
| "to_string Undefined = Inr ''undefined''"
| "to_string Null = Inr ''null''"
| "to_string (Bool b) = Inr (if b then ''true'' else ''false'')"
| "to_string v = Inl Unmodelled"

definition is_digits :: "string \<Rightarrow> bool" where
  "is_digits s = (s \<noteq> [] \<and> list_all (\<lambda>c. c \<in> set ''0123456789'') s)"

definition digits_val :: "string \<Rightarrow> int" where
  "digits_val s = foldl (\<lambda>n c. 10 * n + (of_char c - 48)) 0 s"

text \<open>The characters a numeric string can hold: white space, digits, signs, the dot,
  the letters of \<^verbatim>\<open>Infinity\<close>, of an exponent, of the prefixes \<^verbatim>\<open>0x\<close>, \<^verbatim>\<open>0o\<close>, \<^verbatim>\<open>0b\<close> and of
  the hexadecimal digits.\<close>

definition numeric_chars :: "char list" where
  "numeric_chars =
     white_space @ ''0123456789+-.'' @ ''Infinity'' @ ''eExXoObB'' @ ''abcdefABCDEF''"

text \<open>Conversion to a number for a relational comparison; \<open>None\<close> is \<^verbatim>\<open>NaN\<close>. Of the
  strings, the empty one is 0, a run of digits with at most one sign before it is
  that integer (below \<open>2 ^ 53\<close>, where a number holds it exactly), and one with a
  character no numeric string can hold is \<^verbatim>\<open>NaN\<close>.\<close>

fun to_number :: "jsval \<Rightarrow> error + int option" where
  "to_number Undefined = Inr None"
| "to_number Null = Inr (Some 0)"
| "to_number (Bool b) = Inr (Some (if b then 1 else 0))"
| "to_number (Num n) = Inr (Some n)"
| "to_number (Str s) =
     (if s = [] then Inr (Some 0)
      else if is_digits s
        then (if digits_val s < 2 ^ 53 then Inr (Some (digits_val s)) else Inl Unmodelled)
      else if hd s \<in> set ''+-'' \<and> is_digits (tl s)
        then (if digits_val (tl s) < 2 ^ 53
              then Inr (Some (if hd s = CHR ''-'' then - digits_val (tl s)
                              else digits_val (tl s)))
              else Inl Unmodelled)
      else if list_ex (\<lambda>c. c \<notin> set numeric_chars) s then Inr None
      else Inl Unmodelled)"
| "to_number v = Inl Unmodelled"

text \<open>Strings are ordered by their code units.\<close>

fun str_lt :: "string \<Rightarrow> string \<Rightarrow> bool" where
  "str_lt [] [] = False"
| "str_lt [] (y # ys) = True"
| "str_lt (x # xs) [] = False"
| "str_lt (x # xs) (y # ys) =
     (if x = y then str_lt xs ys else (of_char x :: nat) < of_char y)"

text \<open>The relational comparison behind \<^verbatim>\<open><\<close>, \<^verbatim>\<open>>\<close>, \<^verbatim>\<open><=\<close>, \<^verbatim>\<open>>=\<close>; \<open>None\<close> is
  its undefined result, when an operand is \<^verbatim>\<open>NaN\<close>.\<close>

fun rel_lt :: "jsval \<Rightarrow> jsval \<Rightarrow> error + bool option" where
  "rel_lt (Str x) (Str y) = Inr (Some (str_lt x y))"
| "rel_lt a b =
     bnd (to_number a) (\<lambda>x. bnd (to_number b) (\<lambda>y.
       Inr (case (x, y) of (Some m, Some n) \<Rightarrow> Some (m < n) | _ \<Rightarrow> None)))"

definition js_lt :: "jsval \<Rightarrow> jsval \<Rightarrow> error + bool" where
  "js_lt a b = bnd (rel_lt a b) (\<lambda>r. Inr (r = Some True))"

definition js_gt :: "jsval \<Rightarrow> jsval \<Rightarrow> error + bool" where
  "js_gt a b = bnd (rel_lt b a) (\<lambda>r. Inr (r = Some True))"

definition js_lte :: "jsval \<Rightarrow> jsval \<Rightarrow> error + bool" where
  "js_lte a b = bnd (rel_lt b a) (\<lambda>r. Inr (r = Some False))"

definition js_gte :: "jsval \<Rightarrow> jsval \<Rightarrow> error + bool" where
  "js_gte a b = bnd (rel_lt a b) (\<lambda>r. Inr (r = Some False))"

definition is_infix :: "'a list \<Rightarrow> 'a list \<Rightarrow> bool" where
  "is_infix t s = list_ex (\<lambda>u. take (length t) u = t) (tails s)"

text \<open>\<^verbatim>\<open>recv.includes(x)\<close>: membership in an array, a substring of a string, and a
  \<^verbatim>\<open>TypeError\<close> on a receiver without the method.\<close>

fun js_includes :: "jsval \<Rightarrow> jsval \<Rightarrow> error + bool" where
  "js_includes Undefined x = Inl TypeError"
| "js_includes Null x = Inl TypeError"
| "js_includes (Arr xs) x =
     (if is_ref x \<and> x \<in> set xs then Inl Unmodelled else Inr (x \<in> set xs))"
| "js_includes (Str s) x =
     (case x of
        RegExp ro \<Rightarrow> Inl TypeError
      | _ \<Rightarrow> bnd (to_string x) (\<lambda>t. Inr (is_infix t s)))"
| "js_includes (Obj kvs) x =
     (case map_of kvs ''includes'' of None \<Rightarrow> Inl TypeError | Some f \<Rightarrow> Inl Unmodelled)"
| "js_includes (Fn n) x = Inl Unmodelled"
| "js_includes v x = Inl TypeError"

text \<open>The part of a file name after its last dot (the whole name when it has none).\<close>

definition ext_of :: "string \<Rightarrow> string" where
  "ext_of s = rev (takeWhile (\<lambda>c. c \<noteq> CHR ''.'') (rev s))"

text \<open>\<^verbatim>\<open>nm.split('.').pop()\<close>\<close>

fun split_pop :: "jsval \<Rightarrow> error + jsval" where
  "split_pop (Str s) = Inr (Str (ext_of s))"
| "split_pop (Obj kvs) =
     (case map_of kvs ''split'' of None \<Rightarrow> Inl TypeError | Some f \<Rightarrow> Inl Unmodelled)"
| "split_pop (Fn n) = Inl Unmodelled"
| "split_pop v = Inl TypeError"

text \<open>\<^verbatim>\<open>recv.test(v)\<close>, the result: without flags \<^verbatim>\<open>lastIndex\<close> plays no part.\<close>

fun regexp_test :: "jsval \<Rightarrow> jsval \<Rightarrow> error + bool" where
  "regexp_test (RegExp ro) v =
     bnd (to_string v) (\<lambda>s.
       Inr (if global ro \<or> sticky ro
            then fst (test_flagged (source ro) (sticky ro) (lastIndex ro) s)
            else test (source ro) s))"
| "regexp_test (Obj kvs) v =
     (case map_of kvs ''test'' of None \<Rightarrow> Inl TypeError | Some f \<Rightarrow> Inl Unmodelled)"
| "regexp_test (Fn n) v = Inl Unmodelled"
| "regexp_test recv v = Inl TypeError"

text \<open>\<^verbatim>\<open>f(args)\<close>: only a function can be called.\<close>

fun call :: "funs \<Rightarrow> jsval \<Rightarrow> jsval list \<Rightarrow> error + jsval" where
  "call fs (Fn n) args = fs n args"
| "call fs v args = Inl TypeError"

section \<open>The constraint evaluator\<close>

text \<open>The \<^verbatim>\<open>patterns\<close> table of \<^verbatim>\<open>checkConstraint\<close>, each literal transcribed:
  \<^verbatim>\<open>/^\S+@\S+\.\S+$/\<close>, \<^verbatim>\<open>/-?\\d*(\\.\\d+)?$/\<close>, \<^verbatim>\<open>/^[0-9]+.[0-9]+$/\<close>, \<^verbatim>\<open>/^[0-9]+/\<close> and the
  negated class of \<^verbatim>\<open>alpha\<close>. In a literal, \<^verbatim>\<open>\\\<close> is one backslash character, so
  \<^verbatim>\<open>\\d\<close> is a backslash followed by the letter d. The class of \<^verbatim>\<open>alpha\<close> also lists
  the code units U+201C, U+2019, U+0E50 and U+0E3F, which no string of the model
  contains.\<close>

definition digit :: rx where
  "digit = OneOf ''0123456789''"

definition non_space :: rx where
  "non_space = NoneOf white_space"

definition backslash :: char where
  "backslash = CHR 0x5C"

definition alpha_blacklist :: "char list" where
  "alpha_blacklist = ''`~-!@#$%^&*()_+={}[]|'' @ [backslash] @ '':;<,>.?''"

definition patterns :: "(string \<times> regexp) list" where
  "patterns =
     [(''email'', RegExpLit True
         (Cat (Rep1 non_space) (Cat (Lit CHR ''@'') (Cat (Rep1 non_space)
           (Cat (Lit CHR ''.'') (Rep1 non_space))))) True),
      (''number'', RegExpLit False
         (Cat (Maybe (Lit CHR ''-'')) (Cat (Lit backslash) (Cat (Rep (Lit CHR ''d''))
           (Maybe (Cat (Lit backslash) (Cat AnyChar (Cat (Lit backslash)
             (Rep1 (Lit CHR ''d''))))))))) True),
      (''double'', RegExpLit True (Cat (Rep1 digit) (Cat AnyChar (Rep1 digit))) True),
      (''integer'', RegExpLit True (Rep1 digit) False),
      (''alpha'', RegExpLit True
         (Rep (NoneOf alpha_blacklist)) True)]"

text \<open>\<^verbatim>\<open>data[constraintParams[0]]\<close>\<close>

definition data_at :: "object \<Rightarrow> jsval \<Rightarrow> error + jsval" where
  "data_at data p = bnd (get_index p 0) (\<lambda>k. bnd (to_string k) (obj_get data))"

text \<open>The shapes \<^verbatim>\<open>validator\<close> and \<^verbatim>\<open>validate\<close>, the same in both switches.\<close>

definition run_validator :: "funs \<Rightarrow> jsval \<Rightarrow> jsval \<Rightarrow> object \<Rightarrow> error + jsval" where
  "run_validator fs v p data = call fs p [v, Obj data]"

definition run_validate :: "funs \<Rightarrow> jsval \<Rightarrow> jsval \<Rightarrow> object \<Rightarrow> error + jsval" where
  "run_validate fs v p data =
     bnd (get_prop p ''length'') (\<lambda>n. bnd (strict_eq n (Num 3)) (\<lambda>three.
       if three
       then bnd (get_index p 0) (\<lambda>f. bnd (get_index p 1) (\<lambda>a. call fs f [v, a, Obj data]))
       else bnd (get_index p 0) (\<lambda>f. call fs f [v, Obj data])))"

text \<open>The first switch of \<^verbatim>\<open>checkConstraint\<close>: the value has a \<^verbatim>\<open>name\<close>, here \<open>nm\<close>.\<close>

definition file_switch ::
  "funs \<Rightarrow> string \<Rightarrow> jsval \<Rightarrow> jsval \<Rightarrow> jsval \<Rightarrow> object \<Rightarrow> error + jsval" where
  "file_switch fs constraintName fieldValue nm constraintParams data =
     (if constraintName = ''required'' then Inr (Bool (truthy nm))
      else if constraintName = ''ext''
        then boolean (on2 strict_eq (split_pop nm) (get_index constraintParams 0))
      else if constraintName = ''extAllowed''
        then boolean (on2 js_includes (get_index constraintParams 0) (split_pop nm))
      else if constraintName = ''extNotAllowed''
        then boolean (negated (on2 js_includes (get_index constraintParams 0) (split_pop nm)))
      else if constraintName = ''sizeEqual''
        then boolean (on2 strict_eq (get_prop fieldValue ''size'') (get_index constraintParams 0))
      else if constraintName = ''sizeNotEqual''
        then boolean (negated
          (on2 strict_eq (get_prop fieldValue ''size'') (get_index constraintParams 0)))
      else if constraintName = ''sizeGt''
        then boolean (on2 js_gt (get_prop fieldValue ''size'') (get_index constraintParams 0))
      else if constraintName = ''sizeGte''
        then boolean (on2 js_gte (get_prop fieldValue ''size'') (get_index constraintParams 0))
      else if constraintName = ''sizeLt''
        then boolean (on2 js_lt (get_prop fieldValue ''size'') (get_index constraintParams 0))
      else if constraintName = ''sizeLte''
        then boolean (on2 js_lte (get_prop fieldValue ''size'') (get_index constraintParams 0))
      else if constraintName = ''type''
        then boolean (on2 strict_eq (get_prop fieldValue ''type'') (get_index constraintParams 0))
      else if constraintName = ''typeIn''
        then boolean (on2 js_includes (get_index constraintParams 0) (get_prop fieldValue ''type''))
      else if constraintName = ''typeNotIn''
        then boolean (negated
          (on2 js_includes (get_index constraintParams 0) (get_prop fieldValue ''type'')))
      else if constraintName = ''validator''
        then run_validator fs fieldValue constraintParams data
      else if constraintName = ''validate''
        then run_validate fs fieldValue constraintParams data
      else Inr ErrorObj)"

text \<open>The \<^verbatim>\<open>pattern\<close> case: a name of the table tests the value (an empty value
  passes); a name the table only inherits is truthy too, but has no \<^verbatim>\<open>test\<close>; any
  other name is \<^verbatim>\<open>false\<close>.\<close>

definition run_pattern :: "jsval \<Rightarrow> jsval \<Rightarrow> error + jsval" where
  "run_pattern fieldValue constraintParams =
     bnd (get_index constraintParams 0) (\<lambda>p0. bnd (to_string p0) (\<lambda>k.
       case map_of patterns k of
         Some r \<Rightarrow>
           bnd (get_prop fieldValue ''length'') (\<lambda>n.
             if n = Num 0 then Inr (Bool True)
             else boolean (regexp_test (RegExp (literal r)) fieldValue))
       | None \<Rightarrow>
           if k \<in> set Object_prototype_keys
           then bnd (get_prop fieldValue ''length'') (\<lambda>n.
             if n = Num 0 then Inr (Bool True) else Inl TypeError)
           else Inr (Bool False)))"

text \<open>The second switch: the value has no \<^verbatim>\<open>name\<close>.\<close>

definition scalar_switch ::
  "funs \<Rightarrow> string \<Rightarrow> jsval \<Rightarrow> jsval \<Rightarrow> object \<Rightarrow> error + jsval" where
  "scalar_switch fs constraintName fieldValue constraintParams data =
     (if constraintName = ''required'' then Inr (Bool (truthy fieldValue))
      else if constraintName = ''min''
        then boolean (on2 js_gte (get_prop fieldValue ''length'') (get_index constraintParams 0))
      else if constraintName = ''max''
        then boolean (on2 js_lte (get_prop fieldValue ''length'') (get_index constraintParams 0))
      else if constraintName = ''equalField''
        then boolean (on2 strict_eq (Inr fieldValue) (data_at data constraintParams))
      else if constraintName = ''notEqualField''
        then boolean (negated (on2 strict_eq (Inr fieldValue) (data_at data constraintParams)))
      else if constraintName = ''equal''
        then boolean (on2 strict_eq (Inr fieldValue) (get_index constraintParams 0))
      else if constraintName = ''notEqual''
        then boolean (negated (on2 strict_eq (Inr fieldValue) (get_index constraintParams 0)))
      else if constraintName = ''gt''
        then boolean (on2 js_gt (Inr fieldValue) (get_index constraintParams 0))
      else if constraintName = ''gte''
        then boolean (on2 js_gte (Inr fieldValue) (get_index constraintParams 0))
      else if constraintName = ''lt''
        then boolean (on2 js_lt (Inr fieldValue) (get_index constraintParams 0))
      else if constraintName = ''lte''
        then boolean (on2 js_lte (Inr fieldValue) (get_index constraintParams 0))
      else if constraintName = ''gtField''
        then boolean (on2 js_gt (Inr fieldValue) (data_at data constraintParams))
      else if constraintName = ''gteField''
        then boolean (on2 js_gte (Inr fieldValue) (data_at data constraintParams))
      else if constraintName = ''ltField''
        then boolean (on2 js_lt (Inr fieldValue) (data_at data constraintParams))
      else if constraintName = ''lteField''
        then boolean (on2 js_lte (Inr fieldValue) (data_at data constraintParams))
      else if constraintName = ''in''
        then boolean (on2 js_includes (get_index constraintParams 0) (Inr fieldValue))
      else if constraintName = ''notIn''
        then boolean (negated (on2 js_includes (get_index constraintParams 0) (Inr fieldValue)))
      else if constraintName = ''pattern''
        then run_pattern fieldValue constraintParams
      else if constraintName = ''regexp''
        then boolean (on2 regexp_test (get_index constraintParams 0) (Inr fieldValue))
      else if constraintName = ''validator''
        then run_validator fs fieldValue constraintParams data
      else if constraintName = ''validate''
        then run_validate fs fieldValue constraintParams data
      else Inr ErrorObj)"

text \<open>\<^verbatim>\<open>checkConstraint\<close> (lines 8 to 114): reading \<^verbatim>\<open>fieldValue.name\<close> throws on
  \<^verbatim>\<open>undefined\<close> and \<^verbatim>\<open>null\<close>; an unknown constraint name returns an \<^verbatim>\<open>Error\<close> object.\<close>

definition checkConstraint ::
  "funs \<Rightarrow> string \<Rightarrow> jsval \<Rightarrow> jsval \<Rightarrow> object \<Rightarrow> error + jsval" where
  "checkConstraint fs constraintName fieldValue constraintParams data =
     bnd (get_prop fieldValue ''name'') (\<lambda>nm.
       if nm \<noteq> Undefined
       then file_switch fs constraintName fieldValue nm constraintParams data
       else scalar_switch fs constraintName fieldValue constraintParams data)"

section \<open>The schema validator\<close>

subsection \<open>Objects: enumeration, assignment, spread\<close>

text \<open>\<^verbatim>\<open>Object.entries\<close> lists the keys that are array indices first, in ascending
  order, then every other key in creation order.\<close>

definition is_array_index :: "string \<Rightarrow> bool" where
  "is_array_index k =
     (is_digits k \<and> (k = ''0'' \<or> hd k \<noteq> CHR ''0'') \<and> digits_val k < 2 ^ 32 - 1)"

definition own_entries :: "(string \<times> 'a) list \<Rightarrow> (string \<times> 'a) list" where
  "own_entries kvs =
     sort_key (\<lambda>kv. digits_val (fst kv)) (filter (\<lambda>kv. is_array_index (fst kv)) kvs)
     @ filter (\<lambda>kv. \<not> is_array_index (fst kv)) kvs"

text \<open>\<^verbatim>\<open>Object.keys(o)\<close>\<close>

definition own_keys :: "(string \<times> 'a) list \<Rightarrow> string list" where
  "own_keys kvs = map fst (own_entries kvs)"

text \<open>\<^verbatim>\<open>o[k] = v\<close> as an own property: an existing key keeps its place.\<close>

fun obj_set :: "(string \<times> 'a) list \<Rightarrow> string \<Rightarrow> 'a \<Rightarrow> (string \<times> 'a) list" where
  "obj_set [] k v = [(k, v)]"
| "obj_set ((k', v') # kvs) k v =
     (if k' = k then (k, v) # kvs else (k', v') # obj_set kvs k v)"

definition copy_props :: "object \<Rightarrow> object \<Rightarrow> object" where
  "copy_props target src = foldl (\<lambda>acc kv. obj_set acc (fst kv) (snd kv)) target (own_entries src)"

text \<open>\<^verbatim>\<open>{ ...a, ...b }\<close>: spreading \<^verbatim>\<open>null\<close> or \<^verbatim>\<open>undefined\<close> adds nothing.\<close>

fun spread :: "object \<Rightarrow> jsval \<Rightarrow> error + object" where
  "spread a (Obj b) = Inr (copy_props (copy_props [] a) b)"
| "spread a Null = Inr (copy_props [] a)"
| "spread a Undefined = Inr (copy_props [] a)"
| "spread a v = Inl Unmodelled"

subsection \<open>The hook\<close>

text \<open>The closures of \<^verbatim>\<open>useFormSchema(schema)\<close> see its argument and its two pieces
  of state (lines 5 and 6; the event handlers write them, \<^verbatim>\<open>setErrors\<close> lets the caller
  write one). A schema maps a field name to the rules of the field, an object from
  constraint name to parameters.\<close>

record hook =
  schema :: "(string \<times> object) list"
  errors :: jsval
  isValidated :: bool

subsection \<open>checkConstraints\<close>

text \<open>Line 123: the message a failing constraint declares.\<close>

definition declared_message :: "jsval \<Rightarrow> jsval" where
  "declared_message constraintParams =
     (case constraintParams of Arr xs \<Rightarrow> last_elem xs | _ \<Rightarrow> constraintParams)"

text \<open>Lines 120 to 126: the value of \<^verbatim>\<open>message\<close> after one constraint is evaluated.\<close>

definition constraint_message ::
  "funs \<Rightarrow> string \<Rightarrow> jsval \<Rightarrow> jsval \<Rightarrow> object \<Rightarrow> error + jsval" where
  "constraint_message fs constraintName fieldValue constraintParams data =
     bnd (checkConstraint fs constraintName fieldValue constraintParams data) (\<lambda>isValidated.
       Inr (if constraintName \<noteq> ''validator'' \<and> \<not> truthy isValidated
              then declared_message constraintParams
            else if truthy isValidated \<and> constraintName = ''validator''
              then isValidated
            else Undefined))"

text \<open>Lines 128 to 134 on the local object \<open>acc\<close> (\<^verbatim>\<open>errors\<close> in the source). A field
  name that the empty object inherits is truthy there and has no \<^verbatim>\<open>push\<close>.\<close>

definition push_message :: "string \<Rightarrow> jsval \<Rightarrow> object \<Rightarrow> error + object" where
  "push_message fieldName message acc =
     (if truthy message
      then (case map_of acc fieldName of
              Some (Arr ms) \<Rightarrow> Inr (obj_set acc fieldName (Arr (ms @ [message])))
            | Some other \<Rightarrow> Inl Unmodelled
            | None \<Rightarrow>
                if fieldName \<in> set Object_prototype_keys then Inl TypeError
                else Inr (obj_set acc fieldName (Arr [message])))
      else Inr acc)"

text \<open>The loop of lines 119 to 135.\<close>

fun constraints_loop ::
  "funs \<Rightarrow> string \<Rightarrow> object \<Rightarrow> (string \<times> jsval) list \<Rightarrow> object \<Rightarrow> error + object" where
  "constraints_loop fs fieldName data [] acc = Inr acc"
| "constraints_loop fs fieldName data ((constraintName, constraintParams) # rest) acc =
     bnd (obj_get data fieldName) (\<lambda>fieldValue.
     bnd (constraint_message fs constraintName fieldValue constraintParams data) (\<lambda>message.
     bnd (push_message fieldName message acc) (\<lambda>acc'.
       constraints_loop fs fieldName data rest acc')))"

text \<open>\<^verbatim>\<open>checkConstraints\<close> (lines 116 to 138): \<^verbatim>\<open>null\<close> for an empty string without
  \<^verbatim>\<open>required\<close>, else the object the loop filled.\<close>

definition checkConstraints :: "funs \<Rightarrow> string \<Rightarrow> object \<Rightarrow> object \<Rightarrow> error + jsval" where
  "checkConstraints fs fieldName constraints data =
     bnd (obj_get data fieldName) (\<lambda>fieldValue.
     bnd (strict_eq fieldValue (Str [])) (\<lambda>empty.
       if empty \<and> ''required'' \<notin> set (own_keys constraints) then Inr Null
       else bnd (constraints_loop fs fieldName data (own_entries constraints) [])
              (\<lambda>acc. Inr (Obj acc))))"

subsection \<open>validateField, validateForm\<close>

text \<open>\<^verbatim>\<open>validateField\<close> (lines 140 to 147). \<^verbatim>\<open>schema[fieldName]\<close> is truthy for a declared
  field and for a name the schema inherits; the inherited value has no enumerable
  property.\<close>

definition validateField :: "funs \<Rightarrow> hook \<Rightarrow> string \<Rightarrow> object \<Rightarrow> error + jsval" where
  "validateField fs h fieldName data =
     (case map_of (schema h) fieldName of
        Some constraints \<Rightarrow> checkConstraints fs fieldName constraints data
      | None \<Rightarrow>
          if fieldName \<in> set Object_prototype_keys
          then checkConstraints fs fieldName [] data
          else Inr (Obj []))"

text \<open>\<^verbatim>\<open>validateForm\<close> (lines 149 to 156).\<close>

fun form_loop ::
  "funs \<Rightarrow> object \<Rightarrow> (string \<times> object) list \<Rightarrow> object \<Rightarrow> error + object" where
  "form_loop fs data [] acc = Inr acc"
| "form_loop fs data ((fieldName, constraints) # rest) acc =
     bnd (checkConstraints fs fieldName constraints data) (\<lambda>r.
     bnd (spread acc r) (\<lambda>acc'.
       form_loop fs data rest acc'))"

definition validateForm :: "funs \<Rightarrow> hook \<Rightarrow> object \<Rightarrow> error + jsval" where
  "validateForm fs h data =
     bnd (form_loop fs data (own_entries (schema h)) []) (\<lambda>acc. Inr (Obj acc))"

subsection \<open>What a call leaves behind\<close>

text \<open>The engine writes one thing outside its local variables: line 101 calls \<^verbatim>\<open>test\<close> on
  the regular expression of a \<^verbatim>\<open>regexp\<close> rule, and \<^verbatim>\<open>test\<close> on an object with the \<^verbatim>\<open>g\<close> or
  \<^verbatim>\<open>y\<close> flag stores the new \<^verbatim>\<open>lastIndex\<close> in that object of the schema. Caller-supplied
  functions are pure. The definitions below run the engine together with the schema
  it leaves.\<close>

text \<open>The parameters of a \<^verbatim>\<open>regexp\<close> rule after \<^verbatim>\<open>constraintParams[0].test(fieldValue)\<close>
  returned.\<close>

definition tested_params :: "jsval \<Rightarrow> jsval \<Rightarrow> error + jsval" where
  "tested_params constraintParams fieldValue =
     bnd (get_index constraintParams 0) (\<lambda>re.
       case re of
         RegExp ro \<Rightarrow>
           if \<not> global ro \<and> \<not> sticky ro then Inr constraintParams
           else (case constraintParams of
                   Arr (x # xs) \<Rightarrow>
                     bnd (to_string fieldValue) (\<lambda>s.
                       case snd (test_flagged (source ro) (sticky ro) (lastIndex ro) s) of
                         Some li \<Rightarrow> Inr (Arr (RegExp (ro\<lparr>lastIndex := li\<rparr>) # xs))
                       | None \<Rightarrow> Inl Unmodelled)
                 | _ \<Rightarrow> Inl Unmodelled)
       | _ \<Rightarrow> Inr constraintParams)"

text \<open>The parameters of a constraint after \<^verbatim>\<open>checkConstraint\<close> returned: only the case
  \<^verbatim>\<open>regexp\<close> of the second switch writes.\<close>

definition params_after :: "string \<Rightarrow> jsval \<Rightarrow> jsval \<Rightarrow> error + jsval" where
  "params_after constraintName fieldValue constraintParams =
     bnd (get_prop fieldValue ''name'') (\<lambda>nm.
       if nm = Undefined \<and> constraintName = ''regexp''
       then tested_params constraintParams fieldValue
       else Inr constraintParams)"

text \<open>The loop of lines 119 to 135 with the rules it leaves.\<close>

fun constraints_loop_st ::
  "funs \<Rightarrow> string \<Rightarrow> object \<Rightarrow> (string \<times> jsval) list \<Rightarrow> object \<Rightarrow> object
     \<Rightarrow> error + (object \<times> object)" where
  "constraints_loop_st fs fieldName data [] acc rules = Inr (acc, rules)"
| "constraints_loop_st fs fieldName data ((constraintName, constraintParams) # rest) acc rules =
     bnd (obj_get data fieldName) (\<lambda>fieldValue.
     bnd (constraint_message fs constraintName fieldValue constraintParams data) (\<lambda>message.
     bnd (params_after constraintName fieldValue constraintParams) (\<lambda>constraintParams'.
     bnd (push_message fieldName message acc) (\<lambda>acc'.
       constraints_loop_st fs fieldName data rest acc'
         (obj_set rules constraintName constraintParams')))))"

text \<open>\<^verbatim>\<open>checkConstraints\<close> with the rules it leaves.\<close>

definition checkConstraints_st ::
  "funs \<Rightarrow> string \<Rightarrow> object \<Rightarrow> object \<Rightarrow> error + (jsval \<times> object)" where
  "checkConstraints_st fs fieldName constraints data =
     bnd (obj_get data fieldName) (\<lambda>fieldValue.
     bnd (strict_eq fieldValue (Str [])) (\<lambda>empty.
       if empty \<and> ''required'' \<notin> set (own_keys constraints) then Inr (Null, constraints)
       else bnd (constraints_loop_st fs fieldName data (own_entries constraints) [] constraints)
              (\<lambda>(acc, constraints'). Inr (Obj acc, constraints'))))"

text \<open>\<^verbatim>\<open>validateForm\<close> with the hook it leaves: the report, and the schema whose regular
  expressions carry the \<^verbatim>\<open>lastIndex\<close> the call stored.\<close>

fun form_loop_st ::
  "funs \<Rightarrow> object \<Rightarrow> (string \<times> object) list \<Rightarrow> object \<Rightarrow> (string \<times> object) list
     \<Rightarrow> error + (object \<times> (string \<times> object) list)" where
  "form_loop_st fs data [] acc sch = Inr (acc, sch)"
| "form_loop_st fs data ((fieldName, constraints) # rest) acc sch =
     bnd (checkConstraints_st fs fieldName constraints data) (\<lambda>(r, constraints').
     bnd (spread acc r) (\<lambda>acc'.
       form_loop_st fs data rest acc' (obj_set sch fieldName constraints')))"

definition validateForm_st :: "funs \<Rightarrow> hook \<Rightarrow> object \<Rightarrow> error + (jsval \<times> hook)" where
  "validateForm_st fs h data =
     bnd (form_loop_st fs data (own_entries (schema h)) [] (schema h))
       (\<lambda>(acc, sch). Inr (Obj acc, h\<lparr>schema := sch\<rparr>))"

section \<open>Notions for the statements\<close>

text \<open>What one constraint adds to the list of its field: its message when that is
  truthy (line 128), nothing otherwise.\<close>

definition contribution ::
  "funs \<Rightarrow> string \<Rightarrow> jsval \<Rightarrow> jsval \<Rightarrow> object \<Rightarrow> error + jsval list" where
  "contribution fs constraintName fieldValue constraintParams data =
     bnd (constraint_message fs constraintName fieldValue constraintParams data) (\<lambda>message.
       Inr (if truthy message then [message] else []))"

text \<open>The contributions of a list of constraints, concatenated in the order of the
  list.\<close>

fun contributions ::
  "funs \<Rightarrow> jsval \<Rightarrow> object \<Rightarrow> (string \<times> jsval) list \<Rightarrow> error + jsval list" where
  "contributions fs fieldValue data [] = Inr []"
| "contributions fs fieldValue data ((constraintName, constraintParams) # rest) =
     bnd (contribution fs constraintName fieldValue constraintParams data) (\<lambda>c.
     bnd (contributions fs fieldValue data rest) (\<lambda>cs. Inr (c @ cs)))"

text \<open>The object holding the messages \<open>ms\<close> of one field: no entry for no message.\<close>

definition report_of :: "string \<Rightarrow> jsval list \<Rightarrow> object" where
  "report_of fieldName ms = (if ms = [] then [] else [(fieldName, Arr ms)])"

text \<open>The entries of a report; \<^verbatim>\<open>null\<close> has none.\<close>

fun entries :: "jsval \<Rightarrow> object" where
  "entries (Obj kvs) = kvs"
| "entries v = []"

definition field_entry :: "jsval \<Rightarrow> string \<Rightarrow> jsval option" where
  "field_entry report fieldName = map_of (entries report) fieldName"

text \<open>The messages a report holds for a field: none when the field is absent.\<close>

definition field_messages :: "jsval \<Rightarrow> string \<Rightarrow> jsval list" where
  "field_messages report fieldName =
     (case field_entry report fieldName of Some (Arr ms) \<Rightarrow> ms | _ \<Rightarrow> [])"

text \<open>The parameters of a rule hold no regular expression with the \<^verbatim>\<open>g\<close> or \<^verbatim>\<open>y\<close> flag
  at index 0, where a \<^verbatim>\<open>regexp\<close> rule tests; a schema whose \<^verbatim>\<open>regexp\<close> rules are so.\<close>

definition flagless :: "jsval \<Rightarrow> bool" where
  "flagless constraintParams =
     (case get_index constraintParams 0 of
        Inr (RegExp ro) \<Rightarrow> \<not> global ro \<and> \<not> sticky ro
      | _ \<Rightarrow> True)"

definition flagless_schema :: "(string \<times> object) list \<Rightarrow> bool" where
  "flagless_schema sch =
     list_all (\<lambda>fr. list_all (\<lambda>cp. fst cp = ''regexp'' \<longrightarrow> flagless (snd cp)) (snd fr)) sch"

text \<open>A schema is an object of objects: no field is declared twice, no rule is given
  twice to a field.\<close>

definition distinct_names :: "(string \<times> object) list \<Rightarrow> bool" where
  "distinct_names sch =
     (distinct (map fst sch) \<and> list_all (\<lambda>fr. distinct (map fst (snd fr))) sch)"

text \<open>The case labels of the two switches.\<close>

definition file_names :: "string list" where
  "file_names =
     [''required'', ''ext'', ''extAllowed'', ''extNotAllowed'', ''sizeEqual'',
      ''sizeNotEqual'', ''sizeGt'', ''sizeGte'', ''sizeLt'', ''sizeLte'', ''type'',
      ''typeIn'', ''typeNotIn'', ''validator'', ''validate'']"

definition scalar_names :: "string list" where
  "scalar_names =
     [''required'', ''min'', ''max'', ''equalField'', ''notEqualField'', ''equal'',
      ''notEqual'', ''gt'', ''gte'', ''lt'', ''lte'', ''gtField'', ''gteField'',
      ''ltField'', ''lteField'', ''in'', ''notIn'', ''pattern'', ''regexp'',
      ''validator'', ''validate'']"

text \<open>Two environments of caller-supplied functions: none at all, and one whose every
  function returns \<open>r\<close>.\<close>

definition no_funs :: funs where
  "no_funs n args = Inl TypeError"

definition returning :: "jsval \<Rightarrow> funs" where
  "returning r n args = Inr r"

section \<open>Basic facts\<close>

lemma bnd_Inl [simp]: "bnd (Inl e) f = Inl e"
  by (simp add: bnd_def)

lemma bnd_Inr [simp]: "bnd (Inr x) f = f x"
  by (simp add: bnd_def)

lemma bnd_eq_Inr: "bnd m f = Inr y \<longleftrightarrow> (\<exists>x. m = Inr x \<and> f x = Inr y)"
  by (cases m) simp_all

lemma strict_eq_Str [simp]: "strict_eq v (Str s) = Inr (v = Str s)"
  by (auto simp: strict_eq_def)

subsection \<open>Names outside the switches\<close>

lemma file_switch_unknown:
  "k \<notin> set file_names \<Longrightarrow> file_switch fs k v nm p data = Inr ErrorObj"
  by (simp add: file_switch_def file_names_def)

lemma scalar_switch_unknown:
  "k \<notin> set scalar_names \<Longrightarrow> scalar_switch fs k v p data = Inr ErrorObj"
  by (simp add: scalar_switch_def scalar_names_def)

lemma constraint_message_unknown:
  assumes "k \<notin> set file_names" and "k \<notin> set scalar_names"
    and "constraint_message fs k v p data = Inr m"
  shows "m = Undefined"
proof -
  from assms(1) have nv: "k \<noteq> ''validator''"
    by (auto simp: file_names_def)
  from assms(3) obtain nm where "get_prop v ''name'' = Inr nm"
    by (auto simp: constraint_message_def checkConstraint_def bnd_eq_Inr)
  with assms nv show ?thesis
    by (simp add: constraint_message_def checkConstraint_def file_switch_unknown
        scalar_switch_unknown split: if_splits)
qed

lemma array_index_unknown:
  assumes "is_array_index k"
  shows "k \<notin> set file_names \<and> k \<notin> set scalar_names"
proof -
  from assms have "k \<noteq> []" and "hd k \<in> set ''0123456789''"
    by (auto simp: is_array_index_def is_digits_def list_all_iff)
  then show ?thesis
    by (auto simp: file_names_def scalar_names_def)
qed

lemma contribution_array_index:
  assumes "is_array_index k" and "contribution fs k v p data = Inr c"
  shows "c = []"
proof -
  from assms(2) obtain m where m: "constraint_message fs k v p data = Inr m"
    and c: "c = (if truthy m then [m] else [])"
    by (auto simp: contribution_def bnd_eq_Inr)
  from array_index_unknown [OF assms(1)] m have "m = Undefined"
    by (auto intro: constraint_message_unknown)
  with c show ?thesis by simp
qed

subsection \<open>Enumeration of an object\<close>

lemma set_own_entries [simp]: "set (own_entries kvs) = set kvs"
  by (auto simp: own_entries_def)

lemma set_own_keys [simp]: "set (own_keys kvs) = fst ` set kvs"
  by (simp add: own_keys_def)

lemma distinct_own_entries:
  assumes "distinct (map fst kvs)"
  shows "distinct (map fst (own_entries kvs))"
proof -
  from assms have d: "distinct kvs" and i: "inj_on fst (set kvs)"
    by (simp_all add: distinct_map)
  from d have "distinct (own_entries kvs)"
    by (auto simp: own_entries_def)
  with i show ?thesis
    by (simp add: distinct_map)
qed

lemma map_of_own_entries:
  "distinct (map fst kvs) \<Longrightarrow> map_of (own_entries kvs) = map_of kvs"
  by (simp add: map_of_inject_set distinct_own_entries)

subsection \<open>The loop of checkConstraints\<close>

lemma push_message_report:
  assumes "push_message f m (report_of f ms) = Inr acc"
  shows "acc = report_of f (ms @ (if truthy m then [m] else []))"
  using assms
  by (auto simp: push_message_def report_of_def split: if_splits)

lemma constraints_loop_report:
  assumes "obj_get data f = Inr v"
    and "constraints_loop fs f data cs (report_of f ms) = Inr acc"
  shows "\<exists>ms'. contributions fs v data cs = Inr ms' \<and> acc = report_of f (ms @ ms')"
  using assms(2)
proof (induction cs arbitrary: ms)
  case Nil
  then show ?case by simp
next
  case (Cons c cs)
  obtain cn cp where c: "c = (cn, cp)" by (cases c)
  from Cons.prems c assms(1) obtain m acc1 where
    m: "constraint_message fs cn v cp data = Inr m"
    and p: "push_message f m (report_of f ms) = Inr acc1"
    and l: "constraints_loop fs f data cs acc1 = Inr acc"
    by (auto simp: bnd_eq_Inr)
  from p have acc1: "acc1 = report_of f (ms @ (if truthy m then [m] else []))"
    by (rule push_message_report)
  from l acc1 Cons.IH obtain ms' where
    "contributions fs v data cs = Inr ms'"
    "acc = report_of f ((ms @ (if truthy m then [m] else [])) @ ms')"
    by blast
  with m c show ?case
    by (auto simp: contribution_def)
qed

subsection \<open>Contributions and the order of enumeration\<close>

lemma contributions_append:
  "contributions fs v data (xs @ ys) = Inr ms \<longleftrightarrow>
     (\<exists>a b. contributions fs v data xs = Inr a \<and> contributions fs v data ys = Inr b
        \<and> ms = a @ b)"
proof (induction xs arbitrary: ms)
  case Nil
  then show ?case by auto
next
  case (Cons c xs)
  obtain cn cp where c: "c = (cn, cp)" by (cases c)
  show ?case
    unfolding c
    by (auto simp: bnd_eq_Inr Cons.IH)
qed

lemma contributions_all_index:
  assumes "\<forall>kv\<in>set cs. is_array_index (fst kv)"
    and "contributions fs v data cs = Inr ms"
  shows "ms = []"
  using assms
proof (induction cs arbitrary: ms)
  case Nil
  then show ?case by simp
next
  case (Cons c cs)
  obtain cn cp where c: "c = (cn, cp)" by (cases c)
  from Cons.prems c show ?case
    by (auto simp: bnd_eq_Inr dest: contribution_array_index Cons.IH)
qed

lemma contributions_filter:
  assumes "contributions fs v data (filter (\<lambda>kv. \<not> is_array_index (fst kv)) cs) = Inr ms"
    and "\<forall>kv\<in>set cs. is_array_index (fst kv) \<longrightarrow>
           (\<exists>c. contribution fs (fst kv) v (snd kv) data = Inr c)"
  shows "contributions fs v data cs = Inr ms"
  using assms
proof (induction cs arbitrary: ms)
  case Nil
  then show ?case by simp
next
  case (Cons c cs)
  obtain cn cp where c: "c = (cn, cp)" by (cases c)
  show ?case
  proof (cases "is_array_index cn")
    case True
    with Cons.prems c obtain x where x: "contribution fs cn v cp data = Inr x"
      by auto
    with True have "x = []" by (auto dest: contribution_array_index)
    with Cons c True x show ?thesis by simp
  next
    case False
    with Cons c show ?thesis
      by (auto simp: bnd_eq_Inr)
  qed
qed

lemma contributions_member:
  assumes "contributions fs v data cs = Inr ms" and "(k, p) \<in> set cs"
  shows "\<exists>c. contribution fs k v p data = Inr c \<and> set c \<subseteq> set ms"
  using assms
proof (induction cs arbitrary: ms)
  case Nil
  then show ?case by simp
next
  case (Cons c cs)
  obtain cn cp where c: "c = (cn, cp)" by (cases c)
  from Cons.prems(1) c obtain x xa where x: "contribution fs cn v cp data = Inr x"
    and xa: "contributions fs v data cs = Inr xa" and ms: "ms = x @ xa"
    by (auto simp: bnd_eq_Inr)
  show ?case
  proof (cases "(k, p) = (cn, cp)")
    case True
    with x ms show ?thesis by auto
  next
    case False
    with Cons.prems(2) c have "(k, p) \<in> set cs" by auto
    from Cons.IH [OF xa this] ms show ?thesis by auto
  qed
qed

lemma contributions_own_entries:
  assumes "contributions fs v data (own_entries cs) = Inr ms"
  shows "contributions fs v data cs = Inr ms"
proof -
  define ix where
    "ix = sort_key (\<lambda>kv. digits_val (fst kv)) (filter (\<lambda>kv. is_array_index (fst kv)) cs)"
  define others where "others = filter (\<lambda>kv. \<not> is_array_index (fst kv)) cs"
  have ix_set: "set ix = {kv \<in> set cs. is_array_index (fst kv)}"
    by (simp add: ix_def)
  from assms have "contributions fs v data (ix @ others) = Inr ms"
    by (simp only: own_entries_def ix_def others_def)
  then obtain a b where a: "contributions fs v data ix = Inr a"
    and b: "contributions fs v data others = Inr b" and ms: "ms = a @ b"
    unfolding contributions_append by blast
  from ix_set have "\<forall>kv\<in>set ix. is_array_index (fst kv)"
    by simp
  from contributions_all_index [OF this a] have "a = []" .
  with ms b have b': "contributions fs v data others = Inr ms"
    by simp
  have "\<forall>kv\<in>set cs. is_array_index (fst kv) \<longrightarrow>
      (\<exists>c. contribution fs (fst kv) v (snd kv) data = Inr c)"
  proof (intro ballI impI)
    fix kv assume "kv \<in> set cs" "is_array_index (fst kv)"
    with ix_set have "(fst kv, snd kv) \<in> set ix" by simp
    from contributions_member [OF a this]
    show "\<exists>c. contribution fs (fst kv) v (snd kv) data = Inr c" by blast
  qed
  with b' show ?thesis
    unfolding others_def by (rule contributions_filter)
qed

lemma checkConstraints_cases:
  assumes "obj_get data f = Inr v"
    and "checkConstraints fs f rules data = Inr r"
  shows "(v = Str [] \<and> ''required'' \<notin> fst ` set rules \<and> r = Null) \<or>
         (\<not> (v = Str [] \<and> ''required'' \<notin> fst ` set rules) \<and>
          (\<exists>ms. contributions fs v data rules = Inr ms \<and> r = Obj (report_of f ms)))"
proof (cases "v = Str [] \<and> ''required'' \<notin> fst ` set rules")
  case True
  with assms show ?thesis
    by (auto simp: checkConstraints_def)
next
  case False
  with assms obtain acc where
    l: "constraints_loop fs f data (own_entries rules) (report_of f []) = Inr acc"
    and r: "r = Obj acc"
    by (auto simp: checkConstraints_def bnd_eq_Inr report_of_def split: if_splits)
  from constraints_loop_report [OF assms(1) l] obtain ms where
    "contributions fs v data (own_entries rules) = Inr ms" "acc = report_of f ms"
    by auto
  with False r show ?thesis
    by (auto dest: contributions_own_entries)
qed

lemma checkConstraints_shape:
  assumes "checkConstraints fs f rules data = Inr r"
  shows "r = Null \<or> (\<exists>ms. r = Obj (report_of f ms))"
proof -
  from assms obtain v where "obj_get data f = Inr v"
    by (auto simp: checkConstraints_def bnd_eq_Inr)
  from checkConstraints_cases [OF this assms] show ?thesis by auto
qed

subsection \<open>Assignment, spread and the loop of validateForm\<close>

lemma map_of_obj_set: "map_of (obj_set kvs k v) = (map_of kvs)(k \<mapsto> v)"
  by (induction kvs) auto

lemma map_fst_obj_set:
  "map fst (obj_set kvs k v) =
     (if k \<in> set (map fst kvs) then map fst kvs else map fst kvs @ [k])"
  by (induction kvs) (auto simp: rev_image_eqI)

lemma distinct_obj_set:
  "distinct (map fst kvs) \<Longrightarrow> distinct (map fst (obj_set kvs k v))"
  by (simp add: map_fst_obj_set)

lemma set_obj_set: "set (obj_set kvs k v) \<subseteq> insert (k, v) (set kvs)"
  by (induction kvs) (auto split: if_splits)

lemma copy_props_Nil [simp]: "copy_props target [] = target"
  by (simp add: copy_props_def own_entries_def)

lemma map_of_foldl_obj_set:
  "distinct (map fst xs) \<Longrightarrow>
   map_of (foldl (\<lambda>acc kv. obj_set acc (fst kv) (snd kv)) target xs) = map_of target ++ map_of xs"
proof (induction xs arbitrary: target)
  case Nil
  then show ?case by simp
next
  case (Cons x xs)
  obtain k v where x: "x = (k, v)" by (cases x)
  from Cons.prems x have k: "map_of xs k = None" and d: "distinct (map fst xs)"
    by (auto simp: map_of_eq_None_iff)
  have "map_of (foldl (\<lambda>acc kv. obj_set acc (fst kv) (snd kv)) target (x # xs))
      = map_of (foldl (\<lambda>acc kv. obj_set acc (fst kv) (snd kv)) (obj_set target k v) xs)"
    using x by simp
  also have "\<dots> = map_of (obj_set target k v) ++ map_of xs"
    by (rule Cons.IH [OF d])
  also have "\<dots> = (map_of target)(k \<mapsto> v) ++ map_of xs"
    by (simp only: map_of_obj_set)
  also have "\<dots> = map_of target ++ map_of (x # xs)"
    using k x by (auto simp: map_add_def fun_eq_iff split: option.splits)
  finally show ?case .
qed

lemma distinct_foldl_obj_set:
  "distinct (map fst target) \<Longrightarrow>
   distinct (map fst (foldl (\<lambda>acc kv. obj_set acc (fst kv) (snd kv)) target xs))"
  by (induction xs arbitrary: target) (simp_all add: distinct_obj_set)

lemma set_foldl_obj_set:
  "set (foldl (\<lambda>acc kv. obj_set acc (fst kv) (snd kv)) target xs) \<subseteq> set target \<union> set xs"
proof (induction xs arbitrary: target)
  case Nil
  then show ?case by simp
next
  case (Cons x xs)
  have "set (obj_set target (fst x) (snd x)) \<subseteq> insert x (set target)"
    using set_obj_set [of target "fst x" "snd x"] by simp
  with Cons.IH [of "obj_set target (fst x) (snd x)"] show ?case
    by auto
qed

lemma map_of_copy_props:
  "distinct (map fst src) \<Longrightarrow> map_of (copy_props target src) = map_of target ++ map_of src"
  by (simp add: copy_props_def map_of_foldl_obj_set distinct_own_entries map_of_own_entries)

lemma distinct_copy_props:
  "distinct (map fst target) \<Longrightarrow> distinct (map fst (copy_props target src))"
  by (simp add: copy_props_def distinct_foldl_obj_set)

lemma set_copy_props: "set (copy_props target src) \<subseteq> set target \<union> set src"
  using set_foldl_obj_set [of target "own_entries src"] by (simp add: copy_props_def)

lemma spread_eq:
  "spread acc r = Inr acc' \<Longrightarrow> acc' = copy_props (copy_props [] acc) (entries r)"
  by (cases r) auto

lemma distinct_report_of [simp]: "distinct (map fst (report_of f ms))"
  by (simp add: report_of_def)

lemma spread_report:
  assumes "spread acc r = Inr acc'" and "distinct (map fst acc)"
    and "r = Null \<or> (\<exists>ms. r = Obj (report_of f ms))"
  shows "map_of acc' = map_of acc ++ map_of (entries r)"
    and "distinct (map fst acc')"
    and "set acc' \<subseteq> set acc \<union> set (entries r)"
proof -
  from assms(1) have eq: "acc' = copy_props (copy_props [] acc) (entries r)"
    by (rule spread_eq)
  from assms(3) have d: "distinct (map fst (entries r))"
    by auto
  show "map_of acc' = map_of acc ++ map_of (entries r)"
    using assms(2) d by (simp add: eq map_of_copy_props)
  show "distinct (map fst acc')"
    by (simp add: eq distinct_copy_props)
  show "set acc' \<subseteq> set acc \<union> set (entries r)"
    using set_copy_props [of "copy_props [] acc" "entries r"] set_copy_props [of "[]" acc]
    by (auto simp: eq)
qed

lemma entries_checkConstraints:
  assumes "checkConstraints fs f rules data = Inr r" and "k \<noteq> f"
  shows "map_of (entries r) k = None"
  using checkConstraints_shape [OF assms(1)] assms(2)
  by (auto simp: report_of_def)

lemma form_loop_entries:
  assumes "form_loop fs data fds acc = Inr acc'"
    and "distinct (map fst fds)" and "distinct (map fst acc)"
  shows "(\<forall>k. k \<notin> fst ` set fds \<longrightarrow> map_of acc' k = map_of acc k) \<and>
         (\<forall>f rules. (f, rules) \<in> set fds \<longrightarrow>
            (\<exists>r. checkConstraints fs f rules data = Inr r \<and>
                 map_of acc' f = (map_of acc ++ map_of (entries r)) f))"
  using assms
proof (induction fds arbitrary: acc)
  case Nil
  then show ?case by simp
next
  case (Cons fr fds)
  obtain f0 rules0 where fr: "fr = (f0, rules0)" by (cases fr)
  from Cons.prems(1) fr obtain r0 acc1 where
    r0: "checkConstraints fs f0 rules0 data = Inr r0"
    and s: "spread acc r0 = Inr acc1"
    and l: "form_loop fs data fds acc1 = Inr acc'"
    by (auto simp: bnd_eq_Inr)
  note sh = checkConstraints_shape [OF r0]
  note sp = spread_report [OF s Cons.prems(3) sh]
  from Cons.prems(2) fr have d: "distinct (map fst fds)" and nf: "f0 \<notin> fst ` set fds"
    by auto
  from Cons.IH [OF l d sp(2)] have
    ih1: "\<And>k. k \<notin> fst ` set fds \<Longrightarrow> map_of acc' k = map_of acc1 k"
    and ih2: "\<And>f rules. (f, rules) \<in> set fds \<Longrightarrow>
       \<exists>r. checkConstraints fs f rules data = Inr r \<and>
           map_of acc' f = (map_of acc1 ++ map_of (entries r)) f"
    by blast+
  have other: "map_of acc1 k = map_of acc k" if "k \<noteq> f0" for k
    using entries_checkConstraints [OF r0 that] by (simp add: sp(1) map_add_def)
  show ?case
  proof (intro conjI allI impI)
    fix k assume "k \<notin> fst ` set (fr # fds)"
    with fr have "k \<notin> fst ` set fds" "k \<noteq> f0" by auto
    with ih1 other show "map_of acc' k = map_of acc k" by simp
  next
    fix f rules assume m: "(f, rules) \<in> set (fr # fds)"
    show "\<exists>r. checkConstraints fs f rules data = Inr r \<and>
              map_of acc' f = (map_of acc ++ map_of (entries r)) f"
    proof (cases "(f, rules) = (f0, rules0)")
      case True
      with ih1 [OF nf] r0 sp(1) show ?thesis by auto
    next
      case False
      with m fr have in_rest: "(f, rules) \<in> set fds" by auto
      with nf have "f \<noteq> f0" by (auto simp: image_iff)
      from ih2 [OF in_rest] obtain r where
        r: "checkConstraints fs f rules data = Inr r"
        and e: "map_of acc' f = (map_of acc1 ++ map_of (entries r)) f"
        by blast
      from e other [OF \<open>f \<noteq> f0\<close>] have "map_of acc' f = (map_of acc ++ map_of (entries r)) f"
        by (simp add: map_add_def split: option.splits)
      with r show ?thesis by blast
    qed
  qed
qed

text \<open>Both entry points give a field the entry checkConstraints computes for it.\<close>

lemma validateField_declared:
  "map_of (schema h) f = Some rules \<Longrightarrow>
   validateField fs h f data = checkConstraints fs f rules data"
  by (simp add: validateField_def)

lemma validateForm_entry:
  assumes "validateForm fs h data = Inr res" and "distinct (map fst (schema h))"
    and "map_of (schema h) f = Some rules"
  shows "\<exists>r. checkConstraints fs f rules data = Inr r \<and> field_entry res f = field_entry r f"
proof -
  from assms(1) obtain acc where
    l: "form_loop fs data (own_entries (schema h)) [] = Inr acc" and res: "res = Obj acc"
    by (auto simp: validateForm_def bnd_eq_Inr)
  from assms(3) have m: "(f, rules) \<in> set (schema h)"
    by (rule map_of_SomeD)
  from form_loop_entries [OF l distinct_own_entries [OF assms(2)]] have
    "\<forall>f rules. (f, rules) \<in> set (schema h) \<longrightarrow>
       (\<exists>r. checkConstraints fs f rules data = Inr r \<and> map_of acc f = map_of (entries r) f)"
    by simp
  with m obtain r where
    "checkConstraints fs f rules data = Inr r" "map_of acc f = map_of (entries r) f"
    by blast
  with res show ?thesis
    by (auto simp: field_entry_def)
qed

lemma report_entry:
  assumes "validateField fs h f data = Inr res \<or> validateForm fs h data = Inr res"
    and "distinct (map fst (schema h))" and "map_of (schema h) f = Some rules"
  shows "\<exists>r. checkConstraints fs f rules data = Inr r \<and> field_entry res f = field_entry r f"
  using assms validateForm_entry [of fs h data res f rules]
  by (auto simp: validateField_declared)

subsection \<open>Reading a report\<close>

lemma obj_get_own: "map_of data f = Some v \<Longrightarrow> obj_get data f = Inr v"
  by (simp add: obj_get_def)

lemma field_entry_report_of:
  "field_entry (Obj (report_of f ms)) f = (if ms = [] then None else Some (Arr ms))"
  by (simp add: field_entry_def report_of_def)

lemma field_entry_Null [simp]: "field_entry Null f = None"
  by (simp add: field_entry_def)

lemma field_messages_report_of [simp]: "field_messages (Obj (report_of f ms)) f = ms"
  by (simp add: field_messages_def field_entry_report_of)

lemma field_messages_cong:
  "field_entry res f = field_entry r f \<Longrightarrow> field_messages res f = field_messages r f"
  by (simp add: field_messages_def)

lemma required_fails:
  assumes "v = Str [] \<or> (\<exists>file. v = Obj file \<and> map_of file ''name'' = Some (Str []))"
  shows "constraint_message fs ''required'' v p data = Inr (declared_message p)"
  using assms
  by (auto simp: constraint_message_def checkConstraint_def read_names_def obj_get_def
      file_switch_def scalar_switch_def)

lemma report_of_values:
  "(k, x) \<in> set (report_of f ms) \<Longrightarrow> \<exists>ms'. x = Arr ms' \<and> ms' \<noteq> []"
  by (auto simp: report_of_def split: if_splits)

lemma form_loop_values:
  assumes "form_loop fs data fds acc = Inr acc'"
    and "\<forall>kv\<in>set acc. \<exists>ms. snd kv = Arr ms \<and> ms \<noteq> []"
  shows "\<forall>kv\<in>set acc'. \<exists>ms. snd kv = Arr ms \<and> ms \<noteq> []"
  using assms
proof (induction fds arbitrary: acc)
  case Nil
  then show ?case by simp
next
  case (Cons fr fds)
  obtain f0 rules0 where fr: "fr = (f0, rules0)" by (cases fr)
  from Cons.prems(1) fr obtain r0 acc1 where
    r0: "checkConstraints fs f0 rules0 data = Inr r0"
    and s: "spread acc r0 = Inr acc1"
    and l: "form_loop fs data fds acc1 = Inr acc'"
    by (auto simp: bnd_eq_Inr)
  from spread_eq [OF s] have "set acc1 \<subseteq> set acc \<union> set (entries r0)"
    using set_copy_props [of "copy_props [] acc" "entries r0"] set_copy_props [of "[]" acc]
    by auto
  moreover from checkConstraints_shape [OF r0]
  have "\<forall>kv\<in>set (entries r0). \<exists>ms. snd kv = Arr ms \<and> ms \<noteq> []"
    by (auto dest: report_of_values)
  ultimately have "\<forall>kv\<in>set acc1. \<exists>ms. snd kv = Arr ms \<and> ms \<noteq> []"
    using Cons.prems(2) by blast
  from Cons.IH [OF l this] show ?case .
qed

lemma checkConstraint_validator:
  "get_prop v ''name'' = Inr nm \<Longrightarrow>
   checkConstraint fs ''validator'' v p data = call fs p [v, Obj data]"
  by (simp add: checkConstraint_def file_switch_def scalar_switch_def run_validator_def)

lemma validator_contribution:
  assumes "contribution fs ''validator'' v p data = Inr c"
    and "call fs p [v, Obj data] = Inr r"
  shows "c = (if truthy r then [r] else [])"
proof -
  from assms(1) obtain nm where "get_prop v ''name'' = Inr nm"
    by (auto simp: contribution_def constraint_message_def checkConstraint_def bnd_eq_Inr)
  from checkConstraint_validator [OF this] assms show ?thesis
    by (auto simp: contribution_def constraint_message_def)
qed

subsection \<open>What the matcher decides\<close>

lemma cat_langI: "u \<in> A \<Longrightarrow> v \<in> B \<Longrightarrow> u @ v \<in> cat_lang A B"
  unfolding cat_lang_def by blast

lemma nullable_lang: "nullable r \<longleftrightarrow> [] \<in> lang r"
  by (induction r) (auto simp: cat_lang_def intro: star_lang.star_empty)

lemma cat_lang_Cons:
  "c # s \<in> cat_lang A B \<longleftrightarrow>
     ([] \<in> A \<and> c # s \<in> B) \<or> (\<exists>u v. s = u @ v \<and> c # u \<in> A \<and> v \<in> B)"
proof
  assume "c # s \<in> cat_lang A B"
  then obtain u v where uv: "c # s = u @ v" "u \<in> A" "v \<in> B"
    by (auto simp: cat_lang_def)
  show "([] \<in> A \<and> c # s \<in> B) \<or> (\<exists>u v. s = u @ v \<and> c # u \<in> A \<and> v \<in> B)"
  proof (cases u)
    case Nil
    with uv show ?thesis by simp
  next
    case (Cons a u')
    with uv show ?thesis by auto
  qed
next
  assume "([] \<in> A \<and> c # s \<in> B) \<or> (\<exists>u v. s = u @ v \<and> c # u \<in> A \<and> v \<in> B)"
  then show "c # s \<in> cat_lang A B"
  proof
    assume "[] \<in> A \<and> c # s \<in> B"
    then have "[] @ (c # s) \<in> cat_lang A B"
      unfolding cat_lang_def by blast
    then show ?thesis by simp
  next
    assume "\<exists>u v. s = u @ v \<and> c # u \<in> A \<and> v \<in> B"
    then obtain u v where "s = u @ v" "c # u \<in> A" "v \<in> B" by blast
    then have "(c # u) @ v \<in> cat_lang A B"
      unfolding cat_lang_def by blast
    with \<open>s = u @ v\<close> show ?thesis by simp
  qed
qed

lemma star_lang_Cons_dest:
  assumes "x \<in> star_lang A" and "x = c # s"
  shows "\<exists>u v. s = u @ v \<and> c # u \<in> A \<and> v \<in> star_lang A"
  using assms
proof (induction arbitrary: s rule: star_lang.induct)
  case star_empty
  then show ?case by simp
next
  case (star_step u v)
  show ?case
  proof (cases u)
    case Nil
    with star_step show ?thesis by simp
  next
    case (Cons a u')
    with star_step.prems have "a = c" "s = u' @ v" by simp_all
    with Cons star_step.hyps show ?thesis by blast
  qed
qed

lemma star_lang_Cons:
  "c # s \<in> star_lang A \<longleftrightarrow> (\<exists>u v. s = u @ v \<and> c # u \<in> A \<and> v \<in> star_lang A)"
proof
  assume "c # s \<in> star_lang A"
  then show "\<exists>u v. s = u @ v \<and> c # u \<in> A \<and> v \<in> star_lang A"
    by (rule star_lang_Cons_dest) simp
next
  assume "\<exists>u v. s = u @ v \<and> c # u \<in> A \<and> v \<in> star_lang A"
  then obtain u v where "s = u @ v" "c # u \<in> A" "v \<in> star_lang A" by blast
  then have "(c # u) @ v \<in> star_lang A"
    by (blast intro: star_lang.star_step)
  with \<open>s = u @ v\<close> show "c # s \<in> star_lang A" by simp
qed

lemma lang_deriv: "s \<in> lang (deriv c r) \<longleftrightarrow> c # s \<in> lang r"
proof (induction r arbitrary: s)
  case (Cat r1 r2)
  then show ?case
    by (auto simp: cat_lang_Cons nullable_lang) (auto simp: cat_lang_def)
next
  case (Rep r)
  then show ?case
    by (auto simp: star_lang_Cons) (auto simp: cat_lang_def)
next
  case (Rep1 r)
  then show ?case
    by (auto simp: cat_lang_Cons star_lang_Cons nullable_lang) (auto simp: cat_lang_def)
qed auto

lemma matches_lang: "matches r s \<longleftrightarrow> s \<in> lang r"
  by (induction s arbitrary: r) (simp_all add: nullable_lang lang_deriv)

lemma matches_prefix_lang:
  "matches_prefix r s \<longleftrightarrow> (\<exists>u v. s = u @ v \<and> u \<in> lang r)"
proof (induction s arbitrary: r)
  case Nil
  then show ?case by (simp add: nullable_lang)
next
  case (Cons c s)
  show ?case
  proof
    assume "matches_prefix r (c # s)"
    then consider "nullable r" | "matches_prefix (deriv c r) s" by auto
    then show "\<exists>u v. c # s = u @ v \<and> u \<in> lang r"
    proof cases
      case 1
      then have "c # s = [] @ (c # s) \<and> [] \<in> lang r" by (simp add: nullable_lang)
      then show ?thesis by blast
    next
      case 2
      with Cons.IH obtain u v where "s = u @ v" "u \<in> lang (deriv c r)" by blast
      then have "c # s = (c # u) @ v \<and> c # u \<in> lang r" by (simp add: lang_deriv)
      then show ?thesis by blast
    qed
  next
    assume "\<exists>u v. c # s = u @ v \<and> u \<in> lang r"
    then obtain u v where uv: "c # s = u @ v" "u \<in> lang r" by blast
    show "matches_prefix r (c # s)"
    proof (cases u)
      case Nil
      with uv(2) have "nullable r" by (simp add: nullable_lang)
      then show ?thesis by simp
    next
      case (Cons a u')
      with uv have "s = u' @ v" "u' \<in> lang (deriv c r)" by (simp_all add: lang_deriv)
      with Cons.IH show ?thesis by auto
    qed
  qed
qed

lemma set_tails: "set (tails s) = {q. \<exists>p. s = p @ q}"
proof (induction s)
  case Nil
  then show ?case by simp
next
  case (Cons c s)
  show ?case
  proof (intro equalityI subsetI)
    fix q assume "q \<in> set (tails (c # s))"
    with Cons obtain p where "q = c # s \<or> s = p @ q" by auto
    then have "c # s = [] @ q \<or> c # s = (c # p) @ q" by auto
    then show "q \<in> {q. \<exists>p. c # s = p @ q}" by blast
  next
    fix q assume "q \<in> {q. \<exists>p. c # s = p @ q}"
    then obtain p where p: "c # s = p @ q" by blast
    show "q \<in> set (tails (c # s))"
    proof (cases p)
      case Nil
      with p have "q = c # s" by simp
      then show ?thesis by simp
    next
      case (Cons a p')
      with p have "s = p' @ q" by simp
      with Cons.IH show ?thesis by auto
    qed
  qed
qed

lemma test_lang:
  "test (RegExpLit bol r eol) s \<longleftrightarrow>
     (\<exists>p m q. s = p @ m @ q \<and> m \<in> lang r \<and> (bol \<longrightarrow> p = []) \<and> (eol \<longrightarrow> q = []))"
proof (cases bol; cases eol)
  assume "bol" "eol"
  then show ?thesis by (auto simp: matches_lang)
next
  assume "bol" "\<not> eol"
  then show ?thesis by (auto simp: matches_prefix_lang)
next
  assume "\<not> bol" "eol"
  then show ?thesis
    by (simp add: list_ex_iff set_tails matches_lang) blast
next
  assume "\<not> bol" "\<not> eol"
  then show ?thesis
    by (simp add: list_ex_iff set_tails matches_prefix_lang) blast
qed

lemma star_chars:
  "s \<in> star_lang {[c] | c. P c} \<longleftrightarrow> (\<forall>c\<in>set s. P c)"
proof
  assume "s \<in> star_lang {[c] | c. P c}"
  then show "\<forall>c\<in>set s. P c"
    by (induction rule: star_lang.induct) auto
next
  assume "\<forall>c\<in>set s. P c"
  then show "s \<in> star_lang {[c] | c. P c}"
  proof (induction s)
    case Nil
    show ?case by (rule star_lang.star_empty)
  next
    case (Cons c s)
    then have "[c] \<in> {[c] | c. P c}" and "s \<in> star_lang {[c] | c. P c}"
      by auto
    then have "[c] @ s \<in> star_lang {[c] | c. P c}"
      by (rule star_lang.star_step)
    then show ?case by simp
  qed
qed

lemma plus_chars:
  "s \<in> cat_lang {[c] | c. P c} (star_lang {[c] | c. P c}) \<longleftrightarrow> s \<noteq> [] \<and> (\<forall>c\<in>set s. P c)"
proof (cases s)
  case Nil
  then show ?thesis by (auto simp: cat_lang_def)
next
  case (Cons a t)
  then show ?thesis
    by (auto simp: cat_lang_Cons star_chars)
qed

lemma lang_digits: "s \<in> lang (Rep1 digit) \<longleftrightarrow> s \<noteq> [] \<and> (\<forall>c\<in>set s. c \<in> set ''0123456789'')"
  using plus_chars [of s "\<lambda>c. c \<in> set ''0123456789''"] by (simp add: digit_def)

lemma lang_non_spaces: "s \<in> lang (Rep1 non_space) \<longleftrightarrow> s \<noteq> [] \<and> (\<forall>c\<in>set s. c \<notin> set white_space)"
  using plus_chars [of s "\<lambda>c. c \<notin> set white_space"] by (simp add: non_space_def)

lemma pattern_on_string:
  assumes "map_of patterns k = Some r"
  shows "checkConstraint fs ''pattern'' (Str s) (Arr (Str k # rest)) data
           = Inr (Bool (s = [] \<or> test r s))"
  using assms
  by (simp add: checkConstraint_def scalar_switch_def run_pattern_def read_names_def boolean_def
      literal_def)

lemma lang_number_backslash:
  assumes "m \<in> lang (Cat (Maybe (Lit CHR ''-'')) (Cat (Lit backslash) r))"
  shows "backslash \<in> set m"
  using assms by (auto simp: cat_lang_def)

subsection \<open>The schema a call leaves\<close>

lemma obj_set_same: "map_of kvs k = Some v \<Longrightarrow> obj_set kvs k v = kvs"
  by (induction kvs) (auto split: if_splits)

lemma tested_params_flagless:
  assumes "flagless p" and "tested_params p v = Inr p'"
  shows "p' = p"
  using assms
  by (auto simp: flagless_def tested_params_def bnd_eq_Inr split: sum.splits jsval.splits)

lemma params_after_flagless:
  assumes "cn = ''regexp'' \<longrightarrow> flagless p" and "params_after cn v p = Inr p'"
  shows "p' = p"
  using assms
  by (auto simp: params_after_def bnd_eq_Inr split: if_splits dest: tested_params_flagless)

lemma constraints_loop_st_flagless:
  assumes "constraints_loop_st fs f data cs acc rules = Inr (acc', rules')"
    and "\<forall>cp\<in>set cs. map_of rules (fst cp) = Some (snd cp) \<and>
           (fst cp = ''regexp'' \<longrightarrow> flagless (snd cp))"
  shows "rules' = rules"
  using assms
proof (induction cs arbitrary: acc)
  case Nil
  then show ?case by simp
next
  case (Cons c cs)
  obtain cn cp where c: "c = (cn, cp)" by (cases c)
  from Cons.prems(1) c obtain v cp' acc1 where
    pa: "params_after cn v cp = Inr cp'"
    and l: "constraints_loop_st fs f data cs acc1 (obj_set rules cn cp') = Inr (acc', rules')"
    by (auto simp: bnd_eq_Inr)
  from Cons.prems(2) c have m: "map_of rules cn = Some cp"
    and fl: "cn = ''regexp'' \<longrightarrow> flagless cp"
    by auto
  from params_after_flagless [OF fl pa] have "cp' = cp" .
  with m have "obj_set rules cn cp' = rules"
    by (simp add: obj_set_same)
  with l Cons.IH Cons.prems(2) show ?case
    by simp
qed

lemma constraints_loop_st_result:
  "constraints_loop_st fs f data cs acc rules = Inr (acc', rules') \<Longrightarrow>
   constraints_loop fs f data cs acc = Inr acc'"
proof (induction cs arbitrary: acc rules)
  case Nil
  then show ?case by simp
next
  case (Cons c cs)
  obtain cn cp where c: "c = (cn, cp)" by (cases c)
  from Cons.prems c obtain v m cp' acc1 where
    "obj_get data f = Inr v" "constraint_message fs cn v cp data = Inr m"
    "push_message f m acc = Inr acc1"
    "constraints_loop_st fs f data cs acc1 (obj_set rules cn cp') = Inr (acc', rules')"
    by (auto simp: bnd_eq_Inr)
  with Cons.IH c show ?case
    by simp
qed

lemma checkConstraints_st_result:
  "checkConstraints_st fs f rules data = Inr (r, rules') \<Longrightarrow>
   checkConstraints fs f rules data = Inr r"
  by (auto simp: checkConstraints_st_def checkConstraints_def bnd_eq_Inr
      split: if_splits dest: constraints_loop_st_result)

lemma checkConstraints_st_flagless:
  assumes "checkConstraints_st fs f rules data = Inr (r, rules')"
    and "distinct (map fst rules)"
    and "list_all (\<lambda>cp. fst cp = ''regexp'' \<longrightarrow> flagless (snd cp)) rules"
  shows "rules' = rules"
proof (cases "rules' = rules")
  case True
  then show ?thesis .
next
  case False
  with assms(1) obtain acc where
    l: "constraints_loop_st fs f data (own_entries rules) [] rules = Inr (acc, rules')"
    by (auto simp: checkConstraints_st_def bnd_eq_Inr split: if_splits)
  have "\<forall>cp\<in>set (own_entries rules). map_of rules (fst cp) = Some (snd cp) \<and>
           (fst cp = ''regexp'' \<longrightarrow> flagless (snd cp))"
    using assms(2,3) by (auto simp: list_all_iff)
  from constraints_loop_st_flagless [OF l this] show ?thesis .
qed

lemma form_loop_st_flagless:
  assumes "form_loop_st fs data fds acc sch = Inr (acc', sch')"
    and "\<forall>fr\<in>set fds. map_of sch (fst fr) = Some (snd fr) \<and> distinct (map fst (snd fr)) \<and>
           list_all (\<lambda>cp. fst cp = ''regexp'' \<longrightarrow> flagless (snd cp)) (snd fr)"
  shows "sch' = sch"
  using assms
proof (induction fds arbitrary: acc)
  case Nil
  then show ?case by simp
next
  case (Cons fr fds)
  obtain f0 rules0 where fr: "fr = (f0, rules0)" by (cases fr)
  from Cons.prems(1) fr obtain r rules1 acc1 where
    c: "checkConstraints_st fs f0 rules0 data = Inr (r, rules1)"
    and l: "form_loop_st fs data fds acc1 (obj_set sch f0 rules1) = Inr (acc', sch')"
    by (auto simp: bnd_eq_Inr)
  from Cons.prems(2) fr have m: "map_of sch f0 = Some rules0"
    and d: "distinct (map fst rules0)"
    and fl: "list_all (\<lambda>cp. fst cp = ''regexp'' \<longrightarrow> flagless (snd cp)) rules0"
    by auto
  from checkConstraints_st_flagless [OF c d fl] have "rules1 = rules0" .
  with m have "obj_set sch f0 rules1 = sch"
    by (simp add: obj_set_same)
  with l Cons.IH Cons.prems(2) show ?case
    by simp
qed

lemma form_loop_st_result:
  "form_loop_st fs data fds acc sch = Inr (acc', sch') \<Longrightarrow>
   form_loop fs data fds acc = Inr acc'"
proof (induction fds arbitrary: acc sch)
  case Nil
  then show ?case by simp
next
  case (Cons fr fds)
  obtain f0 rules0 where fr: "fr = (f0, rules0)" by (cases fr)
  from Cons.prems fr obtain r rules1 acc1 where
    "checkConstraints_st fs f0 rules0 data = Inr (r, rules1)" "spread acc r = Inr acc1"
    "form_loop_st fs data fds acc1 (obj_set sch f0 rules1) = Inr (acc', sch')"
    by (auto simp: bnd_eq_Inr)
  with Cons.IH fr show ?case
    by (simp add: checkConstraints_st_result)
qed

lemma validateForm_st_report:
  "validateForm_st fs h data = Inr (res, h') \<Longrightarrow> validateForm fs h data = Inr res"
  by (auto simp: validateForm_st_def validateForm_def bnd_eq_Inr dest: form_loop_st_result)

section \<open>The claims\<close>

text \<open>
  C1. A constraint name outside the vocabulary is to signal an InvalidSchema condition,
  never a silent pass. The source returns \<^verbatim>\<open>new Error()\<close> from the default case and
  \<^verbatim>\<open>checkConstraints\<close> reads that object as a truthy result: for the schema
  \<^verbatim>\<open>{login: {foo: [1, 'msg']}}\<close> and the data \<^verbatim>\<open>{login: 'x'}\<close> the evaluator returns the
  \<^verbatim>\<open>Error\<close> object and the form validates with the empty report.
\<close>

theorem unknown_constraint_passes_silently:
  "checkConstraint no_funs ''foo'' (Str ''x'') (Arr [Num 1, Str ''msg'']) [(''login'', Str ''x'')]
     = Inr ErrorObj
   \<and> validateForm no_funs
       \<lparr>schema = [(''login'', [(''foo'', Arr [Num 1, Str ''msg''])])],
        errors = Obj [], isValidated = False\<rparr>
       [(''login'', Str ''x'')]
     = Inr (Obj [])"
  by code_simp

text \<open>
  C2. The claim: a \<^verbatim>\<open>validator\<close> constraint contributes an entry if and only if its
  function returns a non-empty string, and a boolean return never appears as a message.
  The source pushes whatever truthy value the function returns (lines 124 to 128), so
  \<^verbatim>\<open>true\<close> is reported as a message.
\<close>

theorem validator_true_is_reported:
  "returning (Bool True) 0 [Str ''x'', Obj [(''f'', Str ''x'')]] = Inr (Bool True)
   \<and> validateField (returning (Bool True))
       \<lparr>schema = [(''f'', [(''validator'', Fn 0)])], errors = Obj [], isValidated = False\<rparr>
       ''f'' [(''f'', Str ''x'')]
     = Inr (Obj [(''f'', Arr [Bool True])])"
  by code_simp

text \<open>
  C2, amended. Take a field whose rules hold a \<^verbatim>\<open>validator\<close> constraint and are evaluated
  (its value is not the empty string, or \<^verbatim>\<open>required\<close> is declared), and let the
  function return \<open>r\<close>. In every report that validateField or validateForm returns, the
  messages of the field are those of the constraints declared before the validator,
  then \<open>r\<close> itself exactly when \<open>r\<close> is truthy, then those of the constraints declared
  after it. A falsy return contributes nothing.
\<close>

theorem validator_contributes_truthy_result:
  assumes "validateField fs h f data = Inr res \<or> validateForm fs h data = Inr res"
    and "distinct (map fst (schema h))"
    and "map_of (schema h) f = Some (before @ (''validator'', p) # after)"
    and "map_of data f = Some v"
    and "v \<noteq> Str [] \<or> ''required'' \<in> fst ` set (before @ after)"
    and "call fs p [v, Obj data] = Inr r"
  shows "\<exists>a b. contributions fs v data before = Inr a \<and> contributions fs v data after = Inr b \<and>
           field_messages res f = a @ (if truthy r then [r] else []) @ b"
proof -
  let ?rules = "before @ (''validator'', p) # after"
  from report_entry [OF assms(1-3)] obtain r' where
    r': "checkConstraints fs f ?rules data = Inr r'"
    and e: "field_entry res f = field_entry r' f"
    by blast
  from assms(5) have "\<not> (v = Str [] \<and> ''required'' \<notin> fst ` set ?rules)"
    by auto
  with checkConstraints_cases [OF obj_get_own [OF assms(4)] r'] obtain ms where
    ms: "contributions fs v data ?rules = Inr ms" and rr: "r' = Obj (report_of f ms)"
    by blast
  from ms obtain a c b where a: "contributions fs v data before = Inr a"
    and c: "contribution fs ''validator'' v p data = Inr c"
    and b: "contributions fs v data after = Inr b" and eq: "ms = a @ c @ b"
    by (auto simp: contributions_append bnd_eq_Inr)
  from validator_contribution [OF c assms(6)] eq
  have "ms = a @ (if truthy r then [r] else []) @ b" by simp
  moreover from e rr have "field_messages res f = ms"
    by (simp add: field_messages_cong)
  ultimately show ?thesis using a b by blast
qed

theorem validator_contributes_truthy_result_witness:
  "validateForm (returning (Str ''Password is too short!''))
      \<lparr>schema = [(''password'',
          [(''required'', Str ''Field is required''), (''validator'', Fn 0),
           (''min'', Arr [Num 8, Str ''Too short''])])],
       errors = Obj [], isValidated = False\<rparr>
      [(''password'', Str ''ab'')]
     = Inr (Obj [(''password'', Arr [Str ''Password is too short!'', Str ''Too short''])])
   \<and> call (returning (Str ''Password is too short!'')) (Fn 0)
       [Str ''ab'', Obj [(''password'', Str ''ab'')]] = Inr (Str ''Password is too short!'')
   \<and> contributions (returning (Str ''Password is too short!'')) (Str ''ab'')
       [(''password'', Str ''ab'')] [(''required'', Str ''Field is required'')] = Inr []
   \<and> contributions (returning (Str ''Password is too short!'')) (Str ''ab'')
       [(''password'', Str ''ab'')] [(''min'', Arr [Num 8, Str ''Too short''])]
       = Inr [Str ''Too short'']
   \<and> field_messages
       (Obj [(''password'', Arr [Str ''Password is too short!'', Str ''Too short''])])
       ''password''
     = [] @ [Str ''Password is too short!''] @ [Str ''Too short'']"
proof -
  let ?fs = "returning (Str ''Password is too short!'')"
  let ?h = "\<lparr>schema = [(''password'',
          [(''required'', Str ''Field is required''), (''validator'', Fn 0),
           (''min'', Arr [Num 8, Str ''Too short''])])],
       errors = Obj [], isValidated = False\<rparr>"
  let ?data = "[(''password'', Str ''ab'')]"
  let ?res = "Obj [(''password'', Arr [Str ''Password is too short!'', Str ''Too short''])]"
  have run: "validateForm ?fs ?h ?data = Inr ?res"
    by code_simp
  have d: "distinct (map fst (schema ?h))"
    by simp
  have s: "map_of (schema ?h) ''password''
      = Some ([(''required'', Str ''Field is required'')] @ (''validator'', Fn 0)
          # [(''min'', Arr [Num 8, Str ''Too short''])])"
    by simp
  have v: "map_of ?data ''password'' = Some (Str ''ab'')"
    by simp
  have e: "Str ''ab'' \<noteq> Str [] \<or> ''required'' \<in> fst ` set
      ([(''required'', Str ''Field is required'')] @ [(''min'', Arr [Num 8, Str ''Too short''])])"
    by simp
  have c: "call ?fs (Fn 0) [Str ''ab'', Obj ?data] = Inr (Str ''Password is too short!'')"
    by (simp add: returning_def)
  have a: "contributions ?fs (Str ''ab'') ?data [(''required'', Str ''Field is required'')] = Inr []"
    by code_simp
  have b: "contributions ?fs (Str ''ab'') ?data [(''min'', Arr [Num 8, Str ''Too short''])]
      = Inr [Str ''Too short'']"
    by code_simp
  from validator_contributes_truthy_result [OF disjI2 [OF run] d s v e c] a b
  have "field_messages ?res ''password''
      = [] @ [Str ''Password is too short!''] @ [Str ''Too short'']"
    by simp
  with run c a b show ?thesis
    by blast
qed

text \<open>
  C3. The claim: with \<^verbatim>\<open>required\<close> declared, an empty value always produces a
  \<^verbatim>\<open>required\<close> message. Line 128 drops a falsy message, so a schema whose \<^verbatim>\<open>required\<close>
  message is the empty string reports nothing for the empty field.
\<close>

theorem required_with_empty_message_is_silent:
  "validateForm no_funs
     \<lparr>schema = [(''login'', [(''required'', Str [])])], errors = Obj [], isValidated = False\<rparr>
     [(''login'', Str [])]
     = Inr (Obj [])"
  by code_simp

text \<open>
  C3, amended. For a field whose rules declare \<^verbatim>\<open>required\<close> with a truthy message (a
  non-empty string), and whose value is the empty string or a file descriptor with the
  empty name, every report that validateField or validateForm returns holds that
  message in the list of the field.
\<close>

theorem required_empty_value_reports_message:
  assumes "validateField fs h f data = Inr res \<or> validateForm fs h data = Inr res"
    and "distinct (map fst (schema h))"
    and "map_of (schema h) f = Some rules"
    and "(''required'', p) \<in> set rules"
    and "map_of data f = Some v"
    and "v = Str [] \<or> (\<exists>file. v = Obj file \<and> map_of file ''name'' = Some (Str []))"
    and "truthy (declared_message p)"
  shows "\<exists>ms. field_entry res f = Some (Arr ms) \<and> declared_message p \<in> set ms"
proof -
  from report_entry [OF assms(1-3)] obtain r where
    r: "checkConstraints fs f rules data = Inr r" and e: "field_entry res f = field_entry r f"
    by blast
  from assms(4) have "''required'' \<in> fst ` set rules"
    by (auto simp: image_iff intro: bexI [of _ "(''required'', p)"])
  with checkConstraints_cases [OF obj_get_own [OF assms(5)] r] obtain ms where
    ms: "contributions fs v data rules = Inr ms" and rr: "r = Obj (report_of f ms)"
    by auto
  from contributions_member [OF ms assms(4)] obtain c where
    c: "contribution fs ''required'' v p data = Inr c" and sub: "set c \<subseteq> set ms"
    by blast
  from c required_fails [OF assms(6)] assms(7) have "c = [declared_message p]"
    by (simp add: contribution_def)
  with sub have "declared_message p \<in> set ms" by simp
  with e rr show ?thesis
    by (auto simp: field_entry_report_of)
qed

theorem required_empty_value_reports_message_witness:
  "validateForm no_funs
      \<lparr>schema = [(''avatar'',
          [(''ext'', Arr [Str ''png'', Str ''Must be png'']), (''required'', Str ''Pick a file'')])],
       errors = Obj [], isValidated = False\<rparr>
      [(''avatar'', Obj [(''name'', Str []), (''size'', Num 0), (''type'', Str [])])]
     = Inr (Obj [(''avatar'', Arr [Str ''Must be png'', Str ''Pick a file''])])
   \<and> truthy (declared_message (Str ''Pick a file''))
   \<and> field_entry (Obj [(''avatar'', Arr [Str ''Must be png'', Str ''Pick a file''])]) ''avatar''
     = Some (Arr [Str ''Must be png'', Str ''Pick a file''])
   \<and> declared_message (Str ''Pick a file'') \<in> set [Str ''Must be png'', Str ''Pick a file'']"
proof -
  let ?h = "\<lparr>schema = [(''avatar'',
          [(''ext'', Arr [Str ''png'', Str ''Must be png'']), (''required'', Str ''Pick a file'')])],
       errors = Obj [], isValidated = False\<rparr>"
  let ?file = "[(''name'', Str []), (''size'', Num 0), (''type'', Str [])]"
  let ?data = "[(''avatar'', Obj ?file)]"
  let ?res = "Obj [(''avatar'', Arr [Str ''Must be png'', Str ''Pick a file''])]"
  have run: "validateForm no_funs ?h ?data = Inr ?res"
    by code_simp
  have d: "distinct (map fst (schema ?h))"
    by simp
  have s: "map_of (schema ?h) ''avatar''
      = Some [(''ext'', Arr [Str ''png'', Str ''Must be png'']), (''required'', Str ''Pick a file'')]"
    by simp
  have r: "(''required'', Str ''Pick a file'')
      \<in> set [(''ext'', Arr [Str ''png'', Str ''Must be png'']), (''required'', Str ''Pick a file'')]"
    by simp
  have v: "map_of ?data ''avatar'' = Some (Obj ?file)"
    by simp
  have e: "Obj ?file = Str [] \<or>
      (\<exists>file. Obj ?file = Obj file \<and> map_of file ''name'' = Some (Str []))"
    by simp
  have t: "truthy (declared_message (Str ''Pick a file''))"
    by (simp add: declared_message_def)
  from required_empty_value_reports_message [OF disjI2 [OF run] d s r v e t]
  obtain ms where "field_entry ?res ''avatar'' = Some (Arr ms)"
    and "declared_message (Str ''Pick a file'') \<in> set ms"
    by blast
  moreover have "field_entry ?res ''avatar'' = Some (Arr [Str ''Must be png'', Str ''Pick a file''])"
    by (simp add: field_entry_def)
  ultimately show ?thesis
    using run t by simp
qed

text \<open>
  C4. For a declared field whose rules do not include \<^verbatim>\<open>required\<close> and whose value is
  the empty string, validateField returns \<^verbatim>\<open>null\<close> and a report of validateForm has no
  entry for the field, whatever other constraints the field declares.
\<close>

theorem optional_empty_field_has_no_entry:
  assumes "map_of (schema h) f = Some rules"
    and "distinct (map fst (schema h))"
    and "''required'' \<notin> fst ` set rules"
    and "map_of data f = Some (Str [])"
  shows "validateField fs h f data = Inr Null \<and>
         (validateForm fs h data = Inr res \<longrightarrow> field_entry res f = None)"
proof -
  from assms(3,4) have c: "checkConstraints fs f rules data = Inr Null"
    by (simp add: checkConstraints_def obj_get_own)
  with assms(1) have "validateField fs h f data = Inr Null"
    by (simp add: validateField_declared)
  moreover have "field_entry res f = None" if "validateForm fs h data = Inr res"
    using validateForm_entry [OF that assms(2,1)] c by auto
  ultimately show ?thesis by blast
qed

theorem optional_empty_field_has_no_entry_witness:
  "map_of (schema \<lparr>schema = [(''login'', [(''min'', Arr [Num 4, Str ''Too short''])])],
       errors = Obj [], isValidated = False\<rparr>) ''login''
     = Some [(''min'', Arr [Num 4, Str ''Too short''])]
   \<and> ''required'' \<notin> fst ` set [(''min'', Arr [Num 4, Str ''Too short''])]
   \<and> validateField no_funs
       \<lparr>schema = [(''login'', [(''min'', Arr [Num 4, Str ''Too short''])])],
        errors = Obj [], isValidated = False\<rparr>
       ''login'' [(''login'', Str [])] = Inr Null
   \<and> validateForm no_funs
       \<lparr>schema = [(''login'', [(''min'', Arr [Num 4, Str ''Too short''])])],
        errors = Obj [], isValidated = False\<rparr>
       [(''login'', Str [])] = Inr (Obj [])
   \<and> field_entry (Obj []) ''login'' = None"
proof -
  let ?h = "\<lparr>schema = [(''login'', [(''min'', Arr [Num 4, Str ''Too short''])])],
       errors = Obj [], isValidated = False\<rparr>"
  let ?data = "[(''login'', Str [])]"
  have s: "map_of (schema ?h) ''login'' = Some [(''min'', Arr [Num 4, Str ''Too short''])]"
    by simp
  have d: "distinct (map fst (schema ?h))"
    by simp
  have n: "''required'' \<notin> fst ` set [(''min'', Arr [Num 4, Str ''Too short''])]"
    by simp
  have v: "map_of ?data ''login'' = Some (Str [])"
    by simp
  have run: "validateForm no_funs ?h ?data = Inr (Obj [])"
    by code_simp
  from optional_empty_field_has_no_entry [OF s d n v, of no_funs "Obj []"] run
  have "validateField no_funs ?h ''login'' ?data = Inr Null"
    and "field_entry (Obj []) ''login'' = None"
    by simp_all
  with s n run show ?thesis
    by blast
qed

text \<open>
  C5. The claim: a \<^verbatim>\<open>pattern\<close> constraint naming a pattern outside the registry surfaces
  an InvalidSchema error distinct from a validation failure, and is not coerced into the
  declared message. The source returns \<^verbatim>\<open>false\<close> for such a name (line 98): for the
  rule \<^verbatim>\<open>{pattern: ['zip', 'Bad zip']}\<close> the report holds the declared message.
\<close>

theorem unknown_pattern_reports_declared_message:
  "checkConstraint no_funs ''pattern'' (Str ''x'') (Arr [Str ''zip'', Str ''Bad zip''])
       [(''code'', Str ''x'')]
     = Inr (Bool False)
   \<and> validateForm no_funs
       \<lparr>schema = [(''code'', [(''pattern'', Arr [Str ''zip'', Str ''Bad zip''])])],
        errors = Obj [], isValidated = False\<rparr>
       [(''code'', Str ''x'')]
     = Inr (Obj [(''code'', Arr [Str ''Bad zip''])])"
  by code_simp

text \<open>
  C5, amended. For a value without a \<^verbatim>\<open>name\<close> and a \<^verbatim>\<open>pattern\<close> constraint whose pattern
  name is neither in the registry nor a property name inherited from
  \<^verbatim>\<open>Object.prototype\<close>, the evaluator returns \<^verbatim>\<open>false\<close>, the result of an ordinary
  failure, and the message of the constraint is its declared message.
\<close>

theorem unknown_pattern_fails_with_declared_message:
  assumes "get_prop v ''name'' = Inr Undefined"
    and "map_of patterns k = None"
    and "k \<notin> set Object_prototype_keys"
  shows "checkConstraint fs ''pattern'' v (Arr (Str k # rest)) data = Inr (Bool False) \<and>
         constraint_message fs ''pattern'' v (Arr (Str k # rest)) data
           = Inr (declared_message (Arr (Str k # rest)))"
  using assms
  by (simp add: constraint_message_def checkConstraint_def scalar_switch_def run_pattern_def)

theorem unknown_pattern_fails_with_declared_message_witness:
  "get_prop (Str ''90210'') ''name'' = Inr Undefined
   \<and> map_of patterns ''zip'' = None
   \<and> ''zip'' \<notin> set Object_prototype_keys
   \<and> checkConstraint no_funs ''pattern'' (Str ''90210'') (Arr (Str ''zip'' # [Str ''Bad zip''])) []
     = Inr (Bool False)
   \<and> constraint_message no_funs ''pattern'' (Str ''90210'')
       (Arr (Str ''zip'' # [Str ''Bad zip''])) []
     = Inr (declared_message (Arr (Str ''zip'' # [Str ''Bad zip''])))"
proof -
  have n: "get_prop (Str ''90210'') ''name'' = Inr Undefined"
    by (simp add: read_names_def)
  have p: "map_of patterns ''zip'' = None"
    by (simp add: patterns_def)
  have k: "''zip'' \<notin> set Object_prototype_keys"
    by (simp add: Object_prototype_keys_def)
  from unknown_pattern_fails_with_declared_message [OF n p k, of no_funs "[Str ''Bad zip'']" "[]"]
    n p k
  show ?thesis
    by blast
qed

text \<open>
  C6. Each named pattern is to accept and reject by its stated shape: \<^verbatim>\<open>number\<close> accepts
  a plain digit string such as \<^verbatim>\<open>123\<close>, \<^verbatim>\<open>integer\<close> rejects digits followed by letters.
  The literal of \<^verbatim>\<open>number\<close> demands a backslash character and the literal of
  \<^verbatim>\<open>integer\<close> has no end anchor: \<^verbatim>\<open>123\<close> fails \<^verbatim>\<open>number\<close> and gets the declared message,
  \<^verbatim>\<open>12abc\<close> passes \<^verbatim>\<open>integer\<close>. The dot of \<^verbatim>\<open>double\<close> is not escaped: \<^verbatim>\<open>1a2\<close> passes.
\<close>

theorem number_and_integer_patterns:
  "validateForm no_funs
     \<lparr>schema = [(''age'', [(''pattern'', Arr [Str ''number'', Str ''Not a number''])])],
      errors = Obj [], isValidated = False\<rparr>
     [(''age'', Str ''123'')]
     = Inr (Obj [(''age'', Arr [Str ''Not a number''])])
   \<and> validateForm no_funs
     \<lparr>schema = [(''age'', [(''pattern'', Arr [Str ''integer'', Str ''Not an integer''])])],
      errors = Obj [], isValidated = False\<rparr>
     [(''age'', Str ''12abc'')]
     = Inr (Obj [])
   \<and> validateForm no_funs
     \<lparr>schema = [(''price'', [(''pattern'', Arr [Str ''double'', Str ''Not a double''])])],
      errors = Obj [], isValidated = False\<rparr>
     [(''price'', Str ''1a2'')]
     = Inr (Obj [])"
  by code_simp

text \<open>
  C7. For a declared field whose rules are evaluated (its value is not the empty string,
  or \<^verbatim>\<open>required\<close> is declared), every report that validateField or validateForm returns
  holds for the field exactly the contributions of its constraints, concatenated in the
  order the constraints are declared in its rules: the entry is that array, and there
  is no entry when it is empty.
\<close>

theorem messages_in_declared_order:
  assumes "validateField fs h f data = Inr res \<or> validateForm fs h data = Inr res"
    and "distinct (map fst (schema h))"
    and "map_of (schema h) f = Some rules"
    and "map_of data f = Some v"
    and "v \<noteq> Str [] \<or> ''required'' \<in> fst ` set rules"
  shows "\<exists>ms. contributions fs v data rules = Inr ms \<and>
           field_entry res f = (if ms = [] then None else Some (Arr ms))"
proof -
  from report_entry [OF assms(1-3)] obtain r where
    r: "checkConstraints fs f rules data = Inr r" and e: "field_entry res f = field_entry r f"
    by blast
  from assms(5) have "\<not> (v = Str [] \<and> ''required'' \<notin> fst ` set rules)"
    by blast
  with checkConstraints_cases [OF obj_get_own [OF assms(4)] r] obtain ms where
    "contributions fs v data rules = Inr ms" "r = Obj (report_of f ms)"
    by blast
  with e show ?thesis
    by (auto simp: field_entry_report_of)
qed

theorem messages_in_declared_order_witness:
  "validateForm no_funs
      \<lparr>schema = [(''login'',
          [(''min'', Arr [Num 4, Str ''Too short'']), (''7'', Str ''ignored''),
           (''pattern'', Arr [Str ''email'', Str ''Not an email'']),
           (''max'', Arr [Num 1, Str ''Too long''])]),
         (''nick'', [(''max'', Arr [Num 3, Str ''Nick too long''])])],
       errors = Obj [], isValidated = False\<rparr>
      [(''login'', Str ''ab''), (''nick'', Str ''abcdef'')]
     = Inr (Obj [(''login'', Arr [Str ''Too short'', Str ''Not an email'', Str ''Too long'']),
                 (''nick'', Arr [Str ''Nick too long''])])
   \<and> contributions no_funs (Str ''ab'') [(''login'', Str ''ab''), (''nick'', Str ''abcdef'')]
       [(''min'', Arr [Num 4, Str ''Too short'']), (''7'', Str ''ignored''),
        (''pattern'', Arr [Str ''email'', Str ''Not an email'']),
        (''max'', Arr [Num 1, Str ''Too long''])]
     = Inr [Str ''Too short'', Str ''Not an email'', Str ''Too long'']
   \<and> field_entry
       (Obj [(''login'', Arr [Str ''Too short'', Str ''Not an email'', Str ''Too long'']),
             (''nick'', Arr [Str ''Nick too long''])])
       ''login''
     = Some (Arr [Str ''Too short'', Str ''Not an email'', Str ''Too long''])"
proof -
  let ?rules = "[(''min'', Arr [Num 4, Str ''Too short'']), (''7'', Str ''ignored''),
           (''pattern'', Arr [Str ''email'', Str ''Not an email'']),
           (''max'', Arr [Num 1, Str ''Too long''])]"
  let ?h = "\<lparr>schema = [(''login'', ?rules),
         (''nick'', [(''max'', Arr [Num 3, Str ''Nick too long''])])],
       errors = Obj [], isValidated = False\<rparr>"
  let ?data = "[(''login'', Str ''ab''), (''nick'', Str ''abcdef'')]"
  let ?ms = "[Str ''Too short'', Str ''Not an email'', Str ''Too long'']"
  let ?res = "Obj [(''login'', Arr ?ms), (''nick'', Arr [Str ''Nick too long''])]"
  have run: "validateForm no_funs ?h ?data = Inr ?res"
    by code_simp
  have d: "distinct (map fst (schema ?h))"
    by simp
  have s: "map_of (schema ?h) ''login'' = Some ?rules"
    by simp
  have v: "map_of ?data ''login'' = Some (Str ''ab'')"
    by simp
  have e: "Str ''ab'' \<noteq> Str [] \<or> ''required'' \<in> fst ` set ?rules"
    by simp
  have c: "contributions no_funs (Str ''ab'') ?data ?rules = Inr ?ms"
    by code_simp
  from messages_in_declared_order [OF disjI2 [OF run] d s v e] c
  have "field_entry ?res ''login'' = Some (Arr ?ms)"
    by simp
  with run c show ?thesis
    by blast
qed

text \<open>
  C8. The claim: two calls to validateForm with the same schema and data return the same
  report, the engine keeping no state between calls. Line 101 calls \<^verbatim>\<open>test\<close> on the
  regular expression of the schema, and \<^verbatim>\<open>test\<close> on an object with the \<^verbatim>\<open>g\<close> flag stores
  where the match ended: with the rule \<^verbatim>\<open>{regexp: [/a/g, 'No a']}\<close> and the data
  \<^verbatim>\<open>{f: 'a'}\<close> the first call reports nothing and leaves \<^verbatim>\<open>lastIndex\<close> at 1, and the second
  call, searching from there, reports the message.
\<close>

theorem stateful_regexp_changes_second_report:
  "validateForm_st no_funs
     \<lparr>schema = [(''f'', [(''regexp'',
         Arr [RegExp \<lparr>source = RegExpLit False (Lit CHR ''a'') False, global = True,
                      sticky = False, lastIndex = 0\<rparr>, Str ''No a''])])],
      errors = Obj [], isValidated = False\<rparr>
     [(''f'', Str ''a'')]
   = Inr (Obj [],
       \<lparr>schema = [(''f'', [(''regexp'',
         Arr [RegExp \<lparr>source = RegExpLit False (Lit CHR ''a'') False, global = True,
                      sticky = False, lastIndex = 1\<rparr>, Str ''No a''])])],
        errors = Obj [], isValidated = False\<rparr>)
   \<and> validateForm_st no_funs
     \<lparr>schema = [(''f'', [(''regexp'',
         Arr [RegExp \<lparr>source = RegExpLit False (Lit CHR ''a'') False, global = True,
                      sticky = False, lastIndex = 1\<rparr>, Str ''No a''])])],
      errors = Obj [], isValidated = False\<rparr>
     [(''f'', Str ''a'')]
   = Inr (Obj [(''f'', Arr [Str ''No a''])],
       \<lparr>schema = [(''f'', [(''regexp'',
         Arr [RegExp \<lparr>source = RegExpLit False (Lit CHR ''a'') False, global = True,
                      sticky = False, lastIndex = 0\<rparr>, Str ''No a''])])],
        errors = Obj [], isValidated = False\<rparr>)"
  by code_simp

text \<open>
  C8, amended. For a schema whose \<^verbatim>\<open>regexp\<close> rules hold no regular expression with the
  \<^verbatim>\<open>g\<close> or \<^verbatim>\<open>y\<close> flag, a call of validateForm that returns leaves the hook as it found
  it, and a second call with the same data returns the same report.
\<close>

theorem validateForm_twice_without_flags:
  assumes "distinct_names (schema h)" and "flagless_schema (schema h)"
    and "validateForm_st fs h data = Inr (res, h')"
  shows "h' = h \<and> validateForm_st fs h' data = Inr (res, h')"
proof -
  from assms(3) obtain acc sch where
    l: "form_loop_st fs data (own_entries (schema h)) [] (schema h) = Inr (acc, sch)"
    and h': "h' = h\<lparr>schema := sch\<rparr>"
    by (auto simp: validateForm_st_def bnd_eq_Inr)
  have "\<forall>fr\<in>set (own_entries (schema h)).
      map_of (schema h) (fst fr) = Some (snd fr) \<and> distinct (map fst (snd fr)) \<and>
      list_all (\<lambda>cp. fst cp = ''regexp'' \<longrightarrow> flagless (snd cp)) (snd fr)"
    using assms(1,2) by (auto simp: distinct_names_def flagless_schema_def list_all_iff)
  from form_loop_st_flagless [OF l this] h' have "h' = h"
    by simp
  with assms(3) show ?thesis
    by simp
qed

theorem validateForm_twice_without_flags_witness:
  "distinct_names [(''code'', [(''required'', Str ''Required''), (''regexp'',
       Arr [RegExp (literal (RegExpLit True (Rep1 digit) False)), Str ''Not an integer''])])]
   \<and> flagless_schema [(''code'', [(''required'', Str ''Required''), (''regexp'',
       Arr [RegExp (literal (RegExpLit True (Rep1 digit) False)), Str ''Not an integer''])])]
   \<and> validateForm_st no_funs
       \<lparr>schema = [(''code'', [(''required'', Str ''Required''), (''regexp'',
          Arr [RegExp (literal (RegExpLit True (Rep1 digit) False)), Str ''Not an integer''])])],
        errors = Obj [], isValidated = False\<rparr>
       [(''code'', Str ''x1'')]
     = Inr (Obj [(''code'', Arr [Str ''Not an integer''])],
       \<lparr>schema = [(''code'', [(''required'', Str ''Required''), (''regexp'',
          Arr [RegExp (literal (RegExpLit True (Rep1 digit) False)), Str ''Not an integer''])])],
        errors = Obj [], isValidated = False\<rparr>)"
proof -
  let ?sch = "[(''code'', [(''required'', Str ''Required''), (''regexp'',
       Arr [RegExp (literal (RegExpLit True (Rep1 digit) False)), Str ''Not an integer''])])]"
  let ?h = "\<lparr>schema = ?sch, errors = Obj [], isValidated = False\<rparr>"
  let ?data = "[(''code'', Str ''x1'')]"
  let ?res = "Obj [(''code'', Arr [Str ''Not an integer''])]"
  have dn: "distinct_names (schema ?h)"
    by (simp add: distinct_names_def)
  have fl: "flagless_schema (schema ?h)"
    by (simp add: flagless_schema_def flagless_def literal_def)
  have run: "validateForm_st no_funs ?h ?data = Inr (?res, ?h)"
    by code_simp
  from validateForm_twice_without_flags [OF dn fl run] dn fl
  show ?thesis
    by simp
qed

text \<open>
  C9. In every report that validateField or validateForm returns, each entry is an array
  of at least one message: no empty list is stored. A declared field whose evaluated
  constraints contribute no message has no entry.
\<close>

theorem report_lists_nonempty:
  assumes "validateField fs h f data = Inr res \<or> validateForm fs h data = Inr res"
  shows "(\<forall>kv\<in>set (entries res). \<exists>ms. snd kv = Arr ms \<and> ms \<noteq> []) \<and>
         (distinct (map fst (schema h)) \<and> map_of (schema h) f = Some rules \<and>
          map_of data f = Some v \<and> contributions fs v data rules = Inr []
            \<longrightarrow> field_entry res f = None)"
proof
  from assms show "\<forall>kv\<in>set (entries res). \<exists>ms. snd kv = Arr ms \<and> ms \<noteq> []"
  proof
    assume vf: "validateField fs h f data = Inr res"
    have "res = Obj [] \<or> (\<exists>rules. checkConstraints fs f rules data = Inr res)"
      using vf by (auto simp: validateField_def split: option.splits if_splits)
    then show ?thesis
      by (auto dest!: checkConstraints_shape dest: report_of_values)
  next
    assume "validateForm fs h data = Inr res"
    then obtain acc where
      l: "form_loop fs data (own_entries (schema h)) [] = Inr acc" and res: "res = Obj acc"
      by (auto simp: validateForm_def bnd_eq_Inr)
    from form_loop_values [OF l] res show ?thesis by simp
  qed
next
  show "distinct (map fst (schema h)) \<and> map_of (schema h) f = Some rules \<and>
        map_of data f = Some v \<and> contributions fs v data rules = Inr []
          \<longrightarrow> field_entry res f = None"
  proof
    assume a: "distinct (map fst (schema h)) \<and> map_of (schema h) f = Some rules \<and>
        map_of data f = Some v \<and> contributions fs v data rules = Inr []"
    then have d: "distinct (map fst (schema h))" and s: "map_of (schema h) f = Some rules"
      and v: "map_of data f = Some v" and c: "contributions fs v data rules = Inr []"
      by simp_all
    from report_entry [OF assms d s] obtain r where
      r: "checkConstraints fs f rules data = Inr r" and e: "field_entry res f = field_entry r f"
      by blast
    from checkConstraints_cases [OF obj_get_own [OF v] r] c have "field_entry r f = None"
      by (auto simp: field_entry_report_of)
    with e show "field_entry res f = None" by simp
  qed
qed

theorem report_lists_nonempty_witness:
  "validateForm no_funs
      \<lparr>schema = [(''login'', [(''required'', Str ''Required'')]),
                 (''nick'', [(''max'', Arr [Num 8, Str ''Too long''])])],
       errors = Obj [], isValidated = False\<rparr>
      [(''login'', Str []), (''nick'', Str ''ab'')]
     = Inr (Obj [(''login'', Arr [Str ''Required''])])
   \<and> (\<exists>ms. snd (''login'', Arr [Str ''Required'']) = Arr ms \<and> ms \<noteq> [])
   \<and> contributions no_funs (Str ''ab'') [(''login'', Str []), (''nick'', Str ''ab'')]
       [(''max'', Arr [Num 8, Str ''Too long''])] = Inr []
   \<and> field_entry (Obj [(''login'', Arr [Str ''Required''])]) ''nick'' = None"
proof -
  let ?h = "\<lparr>schema = [(''login'', [(''required'', Str ''Required'')]),
                 (''nick'', [(''max'', Arr [Num 8, Str ''Too long''])])],
       errors = Obj [], isValidated = False\<rparr>"
  let ?data = "[(''login'', Str []), (''nick'', Str ''ab'')]"
  let ?res = "Obj [(''login'', Arr [Str ''Required''])]"
  have run: "validateForm no_funs ?h ?data = Inr ?res"
    by code_simp
  have c: "contributions no_funs (Str ''ab'') ?data [(''max'', Arr [Num 8, Str ''Too long''])]
      = Inr []"
    by code_simp
  have pre: "distinct (map fst (schema ?h)) \<and>
      map_of (schema ?h) ''nick'' = Some [(''max'', Arr [Num 8, Str ''Too long''])] \<and>
      map_of ?data ''nick'' = Some (Str ''ab'') \<and>
      contributions no_funs (Str ''ab'') ?data [(''max'', Arr [Num 8, Str ''Too long''])] = Inr []"
    using c by simp
  from report_lists_nonempty [OF disjI2 [OF run],
      of "''nick''" "[(''max'', Arr [Num 8, Str ''Too long''])]" "Str ''ab''"] pre
  have "\<exists>ms. snd (''login'', Arr [Str ''Required'']) = Arr ms \<and> ms \<noteq> []"
    and "field_entry ?res ''nick'' = None"
    by simp_all
  with run c show ?thesis
    by blast
qed

text \<open>
  C10. The claim: for every field name not declared in the schema, validateField returns
  the empty report. A schema written as an object literal inherits the names of
  \<^verbatim>\<open>Object.prototype\<close>, so \<^verbatim>\<open>schema['toString']\<close> is truthy and \<^verbatim>\<open>checkConstraints\<close> runs:
  on data whose own \<^verbatim>\<open>toString\<close> is the empty string it returns \<^verbatim>\<open>null\<close>.
\<close>

theorem inherited_field_name_returns_null:
  "map_of (schema \<lparr>schema = [(''login'', [(''required'', Str ''Required'')])],
       errors = Obj [], isValidated = False\<rparr>) ''toString'' = None
   \<and> validateField no_funs
       \<lparr>schema = [(''login'', [(''required'', Str ''Required'')])],
        errors = Obj [], isValidated = False\<rparr>
       ''toString'' [(''toString'', Str [])]
     = Inr Null"
  by code_simp

text \<open>
  C10, amended. For every field name that is neither declared in the schema nor a
  property name inherited from \<^verbatim>\<open>Object.prototype\<close>, and every data record, validateField
  returns the empty report.
\<close>

theorem undeclared_field_empty_report:
  assumes "map_of (schema h) f = None" and "f \<notin> set Object_prototype_keys"
  shows "validateField fs h f data = Inr (Obj [])"
  using assms by (simp add: validateField_def)

theorem undeclared_field_empty_report_witness:
  "map_of (schema \<lparr>schema = [(''login'', [(''required'', Str ''Required'')])],
       errors = Obj [], isValidated = False\<rparr>) ''email'' = None
   \<and> ''email'' \<notin> set Object_prototype_keys
   \<and> validateField no_funs
       \<lparr>schema = [(''login'', [(''required'', Str ''Required'')])],
        errors = Obj [], isValidated = False\<rparr>
       ''email'' [(''email'', Str ''a@b.c'')]
     = Inr (Obj [])"
proof -
  let ?h = "\<lparr>schema = [(''login'', [(''required'', Str ''Required'')])],
       errors = Obj [], isValidated = False\<rparr>"
  have s: "map_of (schema ?h) ''email'' = None"
    by simp
  have k: "''email'' \<notin> set Object_prototype_keys"
    by (simp add: Object_prototype_keys_def)
  from undeclared_field_empty_report [OF s k, of no_funs "[(''email'', Str ''a@b.c'')]"] s k
  show ?thesis
    by blast
qed

section \<open>Further properties\<close>

text \<open>
  The \<^verbatim>\<open>alpha\<close> pattern accepts a string exactly when none of its characters is in the
  class of the literal; the empty string passes like under every pattern.
\<close>

theorem alpha_accepts_no_blacklisted_character:
  "checkConstraint fs ''pattern'' (Str s) (Arr (Str ''alpha'' # rest)) data
     = Inr (Bool (list_all (\<lambda>c. c \<notin> set alpha_blacklist) s))"
proof -
  have r: "map_of patterns ''alpha'' = Some (RegExpLit True (Rep (NoneOf alpha_blacklist)) True)"
    by (simp add: patterns_def)
  have "test (RegExpLit True (Rep (NoneOf alpha_blacklist)) True) s
      \<longleftrightarrow> (\<forall>c\<in>set s. c \<notin> set alpha_blacklist)"
    using star_chars [of s "\<lambda>c. c \<notin> set alpha_blacklist"] by (simp add: matches_lang)
  with pattern_on_string [OF r, of fs s rest data] show ?thesis
    by (auto simp: list_all_iff)
qed

text \<open>
  The \<^verbatim>\<open>email\<close> pattern accepts a non-empty string exactly when it has the shape
  text, \<^verbatim>\<open>@\<close>, text, dot, text with the three texts non-empty and no white space
  anywhere.
\<close>

theorem email_accepts_text_at_text_dot_text:
  "checkConstraint fs ''pattern'' (Str s) (Arr (Str ''email'' # rest)) data
     = Inr (Bool (s = [] \<or>
         (\<exists>a b c. s = a @ ''@'' @ b @ ''.'' @ c \<and> a \<noteq> [] \<and> b \<noteq> [] \<and> c \<noteq> [] \<and>
            list_all (\<lambda>x. x \<notin> set white_space) s)))"
proof -
  let ?body = "Cat (Rep1 non_space) (Cat (Lit CHR ''@'') (Cat (Rep1 non_space)
           (Cat (Lit CHR ''.'') (Rep1 non_space))))"
  have r: "map_of patterns ''email'' = Some (RegExpLit True ?body True)"
    by (simp add: patterns_def)
  have ws: "CHR ''@'' \<notin> set white_space" "CHR ''.'' \<notin> set white_space"
    by (simp_all add: white_space_def)
  have "s \<in> lang ?body \<longleftrightarrow>
      (\<exists>a b c. s = a @ ''@'' @ b @ ''.'' @ c \<and> a \<in> lang (Rep1 non_space) \<and>
         b \<in> lang (Rep1 non_space) \<and> c \<in> lang (Rep1 non_space))"
  proof
    assume "s \<in> lang ?body"
    then show "\<exists>a b c. s = a @ ''@'' @ b @ ''.'' @ c \<and> a \<in> lang (Rep1 non_space) \<and>
         b \<in> lang (Rep1 non_space) \<and> c \<in> lang (Rep1 non_space)"
      by (auto simp: cat_lang_def simp del: lang.simps(10))
  next
    assume "\<exists>a b c. s = a @ ''@'' @ b @ ''.'' @ c \<and> a \<in> lang (Rep1 non_space) \<and>
         b \<in> lang (Rep1 non_space) \<and> c \<in> lang (Rep1 non_space)"
    then obtain a b c where s: "s = a @ ''@'' @ b @ ''.'' @ c"
      and a: "a \<in> lang (Rep1 non_space)" and b: "b \<in> lang (Rep1 non_space)"
      and c: "c \<in> lang (Rep1 non_space)"
      by blast
    from c have "''.'' @ c \<in> lang (Cat (Lit CHR ''.'') (Rep1 non_space))"
      by (simp add: cat_lang_def del: lang.simps(10))
    with b have "b @ ''.'' @ c \<in> lang (Cat (Rep1 non_space) (Cat (Lit CHR ''.'') (Rep1 non_space)))"
      by (auto intro: cat_langI simp del: lang.simps(10))
    then have "''@'' @ b @ ''.'' @ c \<in> lang (Cat (Lit CHR ''@'') (Cat (Rep1 non_space)
        (Cat (Lit CHR ''.'') (Rep1 non_space))))"
      by (simp add: cat_lang_def del: lang.simps(10))
    with a have "a @ ''@'' @ b @ ''.'' @ c \<in> lang ?body"
      by (auto intro: cat_langI simp del: lang.simps(10))
    with s show "s \<in> lang ?body" by simp
  qed
  also have "\<dots> \<longleftrightarrow>
      (\<exists>a b c. s = a @ ''@'' @ b @ ''.'' @ c \<and> a \<noteq> [] \<and> b \<noteq> [] \<and> c \<noteq> [] \<and>
         list_all (\<lambda>x. x \<notin> set white_space) s)"
  proof
    assume "\<exists>a b c. s = a @ ''@'' @ b @ ''.'' @ c \<and> a \<in> lang (Rep1 non_space) \<and>
         b \<in> lang (Rep1 non_space) \<and> c \<in> lang (Rep1 non_space)"
    then obtain a b c where s: "s = a @ ''@'' @ b @ ''.'' @ c"
      and abc: "a \<noteq> []" "b \<noteq> []" "c \<noteq> []"
      and n: "\<forall>x\<in>set a. x \<notin> set white_space" "\<forall>x\<in>set b. x \<notin> set white_space"
        "\<forall>x\<in>set c. x \<notin> set white_space"
      unfolding lang_non_spaces by blast
    from s n ws have "list_all (\<lambda>x. x \<notin> set white_space) s"
      by (auto simp: list_all_iff)
    with s abc show "\<exists>a b c. s = a @ ''@'' @ b @ ''.'' @ c \<and> a \<noteq> [] \<and> b \<noteq> [] \<and> c \<noteq> [] \<and>
         list_all (\<lambda>x. x \<notin> set white_space) s"
      by blast
  next
    assume "\<exists>a b c. s = a @ ''@'' @ b @ ''.'' @ c \<and> a \<noteq> [] \<and> b \<noteq> [] \<and> c \<noteq> [] \<and>
         list_all (\<lambda>x. x \<notin> set white_space) s"
    then obtain a b c where s: "s = a @ ''@'' @ b @ ''.'' @ c"
      and abc: "a \<noteq> []" "b \<noteq> []" "c \<noteq> []"
      and n: "list_all (\<lambda>x. x \<notin> set white_space) s"
      by blast
    from s n have "\<forall>x\<in>set a. x \<notin> set white_space" "\<forall>x\<in>set b. x \<notin> set white_space"
        "\<forall>x\<in>set c. x \<notin> set white_space"
      by (auto simp: list_all_iff)
    with abc have "a \<in> lang (Rep1 non_space)" "b \<in> lang (Rep1 non_space)"
        "c \<in> lang (Rep1 non_space)"
      unfolding lang_non_spaces by simp_all
    with s show "\<exists>a b c. s = a @ ''@'' @ b @ ''.'' @ c \<and> a \<in> lang (Rep1 non_space) \<and>
         b \<in> lang (Rep1 non_space) \<and> c \<in> lang (Rep1 non_space)"
      by blast
  qed
  finally have "test (RegExpLit True ?body True) s \<longleftrightarrow>
      (\<exists>a b c. s = a @ ''@'' @ b @ ''.'' @ c \<and> a \<noteq> [] \<and> b \<noteq> [] \<and> c \<noteq> [] \<and>
         list_all (\<lambda>x. x \<notin> set white_space) s)"
    by (simp add: matches_lang)
  with pattern_on_string [OF r, of fs s rest data] show ?thesis
    by simp
qed

text \<open>
  The \<^verbatim>\<open>integer\<close> pattern looks at the first character only: a string passes as soon
  as it starts with a digit.
\<close>

theorem integer_accepts_a_leading_digit:
  "checkConstraint fs ''pattern'' (Str s) (Arr (Str ''integer'' # rest)) data
     = Inr (Bool (s = [] \<or> hd s \<in> set ''0123456789''))"
proof -
  have r: "map_of patterns ''integer'' = Some (RegExpLit True (Rep1 digit) False)"
    by (simp add: patterns_def)
  have "test (RegExpLit True (Rep1 digit) False) s \<longleftrightarrow> s \<noteq> [] \<and> hd s \<in> set ''0123456789''"
  proof
    assume "test (RegExpLit True (Rep1 digit) False) s"
    then obtain u v where "s = u @ v" "u \<in> lang (Rep1 digit)"
      by (auto simp: matches_prefix_lang)
    then show "s \<noteq> [] \<and> hd s \<in> set ''0123456789''"
      unfolding lang_digits by (cases u) auto
  next
    assume a: "s \<noteq> [] \<and> hd s \<in> set ''0123456789''"
    then have "s = [hd s] @ tl s" and "[hd s] \<in> lang (Rep1 digit)"
      unfolding lang_digits by auto
    then have "\<exists>u v. s = u @ v \<and> u \<in> lang (Rep1 digit)"
      by blast
    then show "test (RegExpLit True (Rep1 digit) False) s"
      by (simp add: matches_prefix_lang)
  qed
  with pattern_on_string [OF r, of fs s rest data] show ?thesis
    by auto
qed

text \<open>
  The \<^verbatim>\<open>number\<close> pattern rejects every non-empty string without a backslash character,
  so it rejects every numeral.
\<close>

theorem number_rejects_without_backslash:
  assumes "s \<noteq> []" and "backslash \<notin> set s"
  shows "checkConstraint fs ''pattern'' (Str s) (Arr (Str ''number'' # rest)) data
     = Inr (Bool False)"
proof -
  obtain body where r: "map_of patterns ''number''
      = Some (RegExpLit False (Cat (Maybe (Lit CHR ''-'')) (Cat (Lit backslash) body)) True)"
    by (simp add: patterns_def)
  have "\<not> test (RegExpLit False (Cat (Maybe (Lit CHR ''-'')) (Cat (Lit backslash) body)) True) s"
  proof
    assume "test (RegExpLit False (Cat (Maybe (Lit CHR ''-'')) (Cat (Lit backslash) body)) True) s"
    then obtain p m q where "s = p @ m @ q"
      and "m \<in> lang (Cat (Maybe (Lit CHR ''-'')) (Cat (Lit backslash) body))"
      unfolding test_lang by blast
    with lang_number_backslash [of m body] assms(2) show False by auto
  qed
  with pattern_on_string [OF r, of fs s rest data] assms(1) show ?thesis
    by simp
qed

theorem number_rejects_without_backslash_witness:
  "''-12.5'' \<noteq> [] \<and> backslash \<notin> set ''-12.5''
   \<and> checkConstraint no_funs ''pattern'' (Str ''-12.5'')
       (Arr (Str ''number'' # [Str ''Not a number''])) []
     = Inr (Bool False)"
proof -
  have a: "''-12.5'' \<noteq> []"
    by simp
  have b: "backslash \<notin> set ''-12.5''"
    by (simp add: backslash_def)
  from number_rejects_without_backslash [OF a b, of no_funs "[Str ''Not a number'']" "[]"] a b
  show ?thesis
    by blast
qed

text \<open>
  A constraint whose name is in neither switch never contributes a message, whatever
  its parameters and the value under test.
\<close>

theorem unknown_constraint_contributes_nothing:
  assumes "k \<notin> set file_names" and "k \<notin> set scalar_names"
    and "contribution fs k v p data = Inr c"
  shows "c = []"
proof -
  from assms(3) obtain m where m: "constraint_message fs k v p data = Inr m"
    and c: "c = (if truthy m then [m] else [])"
    by (auto simp: contribution_def bnd_eq_Inr)
  from constraint_message_unknown [OF assms(1,2) m] c show ?thesis
    by simp
qed

theorem unknown_constraint_contributes_nothing_witness:
  "''minLength'' \<notin> set file_names \<and> ''minLength'' \<notin> set scalar_names
   \<and> contribution no_funs ''minLength'' (Str ''ab'') (Arr [Num 4, Str ''Too short''])
       [(''login'', Str ''ab'')] = Inr []"
proof -
  have a: "''minLength'' \<notin> set file_names"
    by (simp add: file_names_def)
  have b: "''minLength'' \<notin> set scalar_names"
    by (simp add: scalar_names_def)
  obtain c where c: "contribution no_funs ''minLength'' (Str ''ab'')
      (Arr [Num 4, Str ''Too short'']) [(''login'', Str ''ab'')] = Inr c"
    by (simp add: contribution_def constraint_message_def checkConstraint_def read_names_def
        scalar_switch_unknown [OF b])
  from unknown_constraint_contributes_nothing [OF a b c] c a b show ?thesis
    by simp
qed

text \<open>
  The examples 1, 2 and 4 of the specification: a required empty login, a login shorter
  than its minimum, the same rule on an empty login, and a file with the wrong
  extension.
\<close>

theorem specification_examples:
  "validateForm no_funs
     \<lparr>schema = [(''login'', [(''required'', Str ''Required'')])],
      errors = Obj [], isValidated = False\<rparr>
     [(''login'', Str [])]
     = Inr (Obj [(''login'', Arr [Str ''Required''])])
   \<and> validateForm no_funs
     \<lparr>schema = [(''login'', [(''min'', Arr [Num 4, Str ''Too short''])])],
      errors = Obj [], isValidated = False\<rparr>
     [(''login'', Str ''ab'')]
     = Inr (Obj [(''login'', Arr [Str ''Too short''])])
   \<and> validateForm no_funs
     \<lparr>schema = [(''login'', [(''min'', Arr [Num 4, Str ''Too short''])])],
      errors = Obj [], isValidated = False\<rparr>
     [(''login'', Str [])]
     = Inr (Obj [])
   \<and> validateForm no_funs
     \<lparr>schema = [(''avatar'', [(''ext'', Arr [Str ''png'', Str ''Must be png''])])],
      errors = Obj [], isValidated = False\<rparr>
     [(''avatar'', Obj [(''name'', Str ''a.jpg''), (''size'', Num 10),
        (''type'', Str ''image/jpeg'')])]
     = Inr (Obj [(''avatar'', Arr [Str ''Must be png''])])"
  by code_simp

end
